theory Spec2Isabelle
  imports Complex_Main
begin

text \<open>
  The crawl-and-score pipeline of the Bankier forum scraper: the fetcher with its retries,
  the semaphore that bounds the outstanding requests, the thread crawler with its
  pagination, the text extractor, the two keyword scorers and the company processor, as
  they are written in \<open>Fundamental/fundamental_screen.py\<close> and
  \<open>Bankier_sentyment/sentiment_analyzer.py\<close>. The definitions come first, then what is
  proved about them.
\<close>

section \<open>Text\<close>

text \<open>
  A Python \<open>str\<close> is a sequence of Unicode code points: \<open>len\<close>, slicing and the
  \<open>in\<close> test all count code points. A text is therefore a list of code points; \<open>u\<close>
  turns an ASCII literal into one, and the Polish letters of the keyword tables are written
  as their code points (for example \<open>0x15B\<close> for U+015B).
\<close>

type_synonym str = "nat list"

definition u :: "string \<Rightarrow> str" where
  "u s = map of_char s"

text \<open>\<open>k in t\<close> on two strings: \<open>k\<close> occurs in \<open>t\<close> as a contiguous block.\<close>

fun startswith :: "str \<Rightarrow> str \<Rightarrow> bool" where
  "startswith t [] = True"
| "startswith [] (k # ks) = False"
| "startswith (c # t) (k # ks) = (c = k \<and> startswith t ks)"

fun str_in :: "str \<Rightarrow> str \<Rightarrow> bool" where
  "str_in k [] = (k = [])"
| "str_in k (c # t) = (startswith (c # t) k \<or> str_in k t)"

text \<open>
  \<open>str.lower\<close> is the interpreter's Unicode lower-casing; the scorers take it as the
  parameter \<open>lower\<close>. \<open>ascii_lower\<close> is that function on texts whose upper-case letters
  are all ASCII, and is what the concrete evaluations below use.
\<close>

definition ascii_lower :: "str \<Rightarrow> str" where
  "ascii_lower t = map (\<lambda>c. if 65 \<le> c \<and> c \<le> 90 then c + 32 else c) t"

section \<open>Sentiment scorer (Bankier\_sentyment/sentiment\_analyzer.py)\<close>

datatype sentiment = POZYTYWNY | NEGATYWNY | NEUTRALNY

definition sentiment_positive_keywords :: "str list" where
  "sentiment_positive_keywords = [
    u ''wzrost'', u ''zysk'', u ''dobr'', u ''super'', [0x15B] @ u ''wietn'',
    u ''pozytywn'', u ''sukces'', u ''rekord'', u ''kupuj'', u ''kupi'' @ [0x107],
    u ''kupuj'' @ [0x119], u ''hold'', u ''trzyma'', u ''rosn'' @ [0x105] @ [0x107],
    u ''ro'' @ [0x15B] @ u ''nie'', u ''g'' @ [0xF3] @ u ''r'' @ [0x119], u ''cel'',
    u ''plus'', u ''zyskown'', u ''mocn'', u ''bullish'', u ''bull'', u ''rally'',
    u ''boom'', u ''bra'' @ [0x107], u ''d'' @ [0x142] @ u ''ugi'',
    u ''pi'' @ [0x119] @ u ''knie'', u ''fajnie'', u ''solidn'', u ''zbiera'',
    u ''wystrza'' @ [0x142], u ''wz'' @ [0xF3] @ u ''r'', u ''rekomenduj'', u ''okazja'',
    u ''tanio'', u ''warte'', u ''silny'', u ''dynamiczny'', u ''perspektywy'', u ''wzorem'']"

definition sentiment_negative_keywords :: "str list" where
  "sentiment_negative_keywords = [
    u ''spadek'', u ''strat'', u ''kiepsk'', u ''s'' @ [0x142] @ u ''ab'', u ''negatywn'',
    u ''kryzys'', u ''problem'', u ''sprzeda'', u ''sprzedaj'', u ''sprzedam'', u ''sell'',
    u ''ucieka'', u ''d'' @ [0xF3] @ [0x142], u ''minus'', u ''short'',
    u ''trac'' @ [0x119], u ''gubi'', u ''bearish'', u ''bear'', u ''crash'', u ''dno'',
    u ''taniec'', u ''p'' @ [0x142] @ u ''acz'', u ''najgorszy'', u ''dziadostwo'',
    u ''gniot'', u ''wsp'' @ [0xF3] @ [0x142] @ u ''czuj'', u ''zawiedziony'',
    u ''dramat'', u ''zmarnowany'', u ''zawalisz'', u ''blada'', u ''panika'',
    u ''zagro'' @ [0x17C] @ u ''enie'', u ''ryzyko'', u ''strach'']"

text \<open>\<open>sum(1 for keyword in keywords if keyword in text)\<close>\<close>

fun count_present :: "str list \<Rightarrow> str \<Rightarrow> int" where
  "count_present [] t = 0"
| "count_present (keyword # keywords) t =
     (if str_in keyword t then 1 else 0) + count_present keywords t"

definition analyze_sentiment :: "(str \<Rightarrow> str) \<Rightarrow> str \<Rightarrow> sentiment \<times> int" where
  "analyze_sentiment lower title =
     (let title_lower = lower title;
          positive_score = count_present sentiment_positive_keywords title_lower;
          negative_score = count_present sentiment_negative_keywords title_lower
      in if positive_score > negative_score then (POZYTYWNY, positive_score - negative_score)
         else if negative_score > positive_score then (NEGATYWNY, negative_score - positive_score)
         else (NEUTRALNY, 0))"


section \<open>Python floats\<close>

text \<open>
  A Python \<open>float\<close> is an IEEE 754 binary64 number and every operation on floats rounds
  its exact result to the nearest such number, ties to the one with an even significand.
  The model takes a finite float as the real number it denotes and writes every rounding
  out. Two things are left out: the sign of a zero, and the infinities that a result of
  magnitude \<open>2 ^ 1024\<close> or more would give (the scores computed here are sums of at most a
  few dozen products of a keyword count and a weight below one).
\<close>

definition round_half_even :: "real \<Rightarrow> int" where
  "round_half_even y =
     (let f = \<lfloor>y\<rfloor>; d = y - of_int f
      in if d < 1 / 2 then f else if d > 1 / 2 then f + 1 else if even f then f else f + 1)"

text \<open>
  The binary exponent of a non-zero number: \<open>exponent x = e\<close> when
  \<open>2 ^ e \<le> \<bar>x\<bar> < 2 ^ (e + 1)\<close>, found by halving a number of at least 2 and by doubling
  a number below 1.
\<close>

function exponent_up :: "real \<Rightarrow> nat" where
  "exponent_up x = (if x < 2 then 0 else Suc (exponent_up (x / 2)))"
  by pat_completeness auto
termination
  by (relation "measure (\<lambda>x. nat \<lceil>x\<rceil>)") (auto, linarith)

function exponent_down :: "real \<Rightarrow> nat" where
  "exponent_down x = (if x \<le> 0 \<or> 1 \<le> x then 0 else Suc (exponent_down (2 * x)))"
  by pat_completeness auto
termination
proof (relation "measure (\<lambda>x. nat \<lceil>1 / x\<rceil>)")
  show "wf (measure (\<lambda>x :: real. nat \<lceil>1 / x\<rceil>))" by simp
next
  fix x :: real
  assume "\<not> (x \<le> 0 \<or> 1 \<le> x)"
  then have x: "0 < x" "x < 1" by auto
  then have "1 < 1 / x" by simp
  then have c: "2 \<le> \<lceil>1 / x\<rceil>" by linarith
  have "1 / (2 * x) = (1 / x) / 2" by simp
  also have "\<dots> \<le> of_int \<lceil>1 / x\<rceil> / 2" by (simp add: divide_right_mono)
  also have "\<dots> \<le> of_int (\<lceil>1 / x\<rceil> - 1)" using c by simp
  finally have "\<lceil>1 / (2 * x)\<rceil> \<le> \<lceil>1 / x\<rceil> - 1" by (simp only: ceiling_le_iff)
  then have "nat \<lceil>1 / (2 * x)\<rceil> < nat \<lceil>1 / x\<rceil>" using c by linarith
  then show "(2 * x, x) \<in> measure (\<lambda>x. nat \<lceil>1 / x\<rceil>)"
    by (simp only: in_measure)
qed

declare exponent_up.simps [simp del] exponent_down.simps [simp del]

definition exponent :: "real \<Rightarrow> int" where
  "exponent x = (if 1 \<le> \<bar>x\<bar> then int (exponent_up \<bar>x\<bar>) else - int (exponent_down \<bar>x\<bar>))"

definition pow2 :: "int \<Rightarrow> real" where
  "pow2 e = (if 0 \<le> e then 2 ^ nat e else 1 / 2 ^ nat (- e))"

text \<open>
  Rounding to the nearest float: a number with exponent \<open>e\<close> is rounded to a multiple of
  \<open>2 ^ (e - 52)\<close>, which leaves it 53 significant bits, and never to a finer grid than that
  of the subnormal numbers, \<open>2 ^ - 1074\<close>.
\<close>

definition fl :: "real \<Rightarrow> real" where
  "fl x = (if x = 0 then 0
           else let q = max (exponent x - 52) (- 1074)
                in of_int (round_half_even (x / pow2 q)) * pow2 q)"

text \<open>
  \<open>a + b\<close>, \<open>a - b\<close> and \<open>a * b\<close> on floats, and the conversion of an \<open>int\<close> operand to a
  float.
\<close>

definition fadd :: "real \<Rightarrow> real \<Rightarrow> real" where
  "fadd a b = fl (a + b)"

definition fsub :: "real \<Rightarrow> real \<Rightarrow> real" where
  "fsub a b = fl (a - b)"

definition fmul :: "real \<Rightarrow> real \<Rightarrow> real" where
  "fmul a b = fl (a * b)"

definition float_of_int :: "int \<Rightarrow> real" where
  "float_of_int n = fl (of_int n)"

text \<open>
  The built-in \<open>sum\<close> over floats starts from the integer 0, to which the first float is
  added. How it goes on depends on the interpreter: CPython up to 3.11 adds the floats
  from left to right; CPython from 3.12 on keeps, next to the running sum, a compensation
  term that collects the rounding errors of the additions (Neumaier's algorithm) and
  adds it at the end when it is not zero.
\<close>

datatype summation = Plain | Compensated

fun neumaier :: "real list \<Rightarrow> real \<Rightarrow> real \<Rightarrow> real" where
  "neumaier [] f_result c = (if c \<noteq> 0 then fadd f_result c else f_result)"
| "neumaier (x # xs) f_result c =
     (let t = fadd f_result x
      in if \<bar>f_result\<bar> \<ge> \<bar>x\<bar> then neumaier xs t (fadd c (fadd (fsub f_result t) x))
         else neumaier xs t (fadd c (fadd (fsub x t) f_result)))"

definition py_sum :: "summation \<Rightarrow> real list \<Rightarrow> real" where
  "py_sum sm xs =
     (case sm of
        Plain \<Rightarrow> foldl fadd 0 xs
      | Compensated \<Rightarrow> (case xs of [] \<Rightarrow> 0 | x # rest \<Rightarrow> neumaier rest (fadd 0 x) 0))"

text \<open>
  \<open>round(x, 2)\<close> on a float rounds the exact value of \<open>x\<close> to two decimal places, ties to
  the even digit, and returns the float nearest to that decimal number.
\<close>

definition round2 :: "real \<Rightarrow> real" where
  "round2 x = fl (of_int (round_half_even (x * 100)) / 100)"

section \<open>Fundamental scorer (Fundamental/fundamental\_screen.py)\<close>

text \<open>
  One entry of the \<open>FUNDAMENTAL_CATEGORIES\<close> dictionary. A weight is the float that
  its decimal literal denotes.
\<close>

record category =
  cat_name :: str
  weight :: real
  positive_keywords :: "str list"
  negative_keywords :: "str list"

definition EARNINGS :: category where
  "EARNINGS = \<lparr>cat_name = u ''EARNINGS'', weight = fl (25 / 100),
  positive_keywords = [
    u ''wzrost przychod'' @ [0xF3] @ u ''w'', u ''wzrost zysku'', u ''zysk netto'',
    u ''rekordowy wynik'', u ''wynik finansowy'', u ''wynik powy'' @ [0x17C] @ u ''ej'',
    u ''wzrost EBITDA'', u ''rentowno'' @ [0x15B] @ [0x107], u ''mar'' @ [0x17C] @ u ''a'',
    u ''zyskowno'' @ [0x15B] @ [0x107], u ''lepszy wynik'',
    u ''przewy'' @ [0x17C] @ u ''szy'' @ [0x142], u ''pobi'' @ [0x142] @ u ''a rekord'',
    u ''przychody wzros'' @ [0x142] @ u ''y'', u ''zysk wzr'' @ [0xF3] @ u ''s'' @ [0x142],
    u ''dodatni wynik'', u ''zysk operacyjny''],
  negative_keywords = [
    u ''spadek przychod'' @ [0xF3] @ u ''w'', u ''spadek zysk'' @ [0xF3] @ u ''w'',
    u ''strata netto'', u ''strata operacyjna'', u ''gorszy wynik'',
    u ''spadek mar'' @ [0x17C] @ u ''y'',
    u ''ni'' @ [0x17C] @ u ''sza rentowno'' @ [0x15B] @ [0x107],
    u ''wynik poni'' @ [0x17C] @ u ''ej'', u ''odpis'',
    u ''utrata warto'' @ [0x15B] @ u ''ci'', u ''pogorszenie wyniku'']\<rparr>"

definition OUTLOOK :: category where
  "OUTLOOK = \<lparr>cat_name = u ''OUTLOOK'', weight = fl (20 / 100),
  positive_keywords = [
    u ''prognoza wzrostu'', u ''perspektywy rozwoju'', u ''optymistyczna prognoza'',
    u ''pozytywne prognozy'', u ''guidance wzrost'', u ''cel wzrost'',
    u ''szacuje wzrost'', u ''przewiduje wzrost'',
    u ''spodziewa si'' @ [0x119] @ u '' wzrostu'', u ''plan rozwoju'',
    u ''strategia wzrostu'', u ''ambitne cele'', u ''pozytywne outlook''],
  negative_keywords = [
    u ''obni'' @ [0x17C] @ u ''ona prognoza'', u ''gorsze perspektywy'',
    u ''negatywne prognozy'', u ''obni'' @ [0x17C] @ u ''ony guidance'',
    u ''ni'' @ [0x17C] @ u ''szy cel'', u ''oczekuje spadku'', u ''przewiduje spadek'',
    u ''pesymistyczne prognozy'', u ''gorsze outlook'']\<rparr>"

definition STRATEGY :: category where
  "STRATEGY = \<lparr>cat_name = u ''STRATEGY'', weight = fl (20 / 100),
  positive_keywords = [
    u ''nowa strategia'', u ''realizacja strategii'', u ''transformacja'',
    u ''reorganizacja'', u ''ekspansja'', u ''rozw'' @ [0xF3] @ u ''j'', u ''innowacja'',
    u ''digitalizacja'', u ''automatyzacja'', u ''pozyska'' @ [0x142], u ''wprowadza'',
    u ''launch'', u ''premiera'', u ''nowy produkt'', u ''nowa us'' @ [0x142] @ u ''uga'',
    u ''zmiany organizacyjne'', u ''nowy model biznesowy''],
  negative_keywords = [
    u ''pora'' @ [0x17C] @ u ''ka strategii'', u ''problem z realizacj'' @ [0x105],
    u ''op'' @ [0xF3] @ [0x17A] @ u ''nienie projektu'', u ''nieudana ekspansja'',
    u ''wycofa'' @ [0x142] @ u '' si'' @ [0x119], u ''zamkn'' @ [0x105] @ [0x142],
    u ''likwidacja'', u ''restrukturyzacja przymusowa'']\<rparr>"

definition CONTRACTS :: category where
  "CONTRACTS = \<lparr>cat_name = u ''CONTRACTS'', weight = fl (15 / 100),
  positive_keywords = [
    u ''nowy kontrakt'', u ''podpisa'' @ [0x142] @ u '' umow'' @ [0x119],
    u ''wygra'' @ [0x142] @ u '' przetarg'', u ''zawar'' @ [0x142] @ u '' umow'' @ [0x119],
    u ''pozyska'' @ [0x142] @ u '' zlecenie'', u ''nowe zam'' @ [0xF3] @ u ''wienie'',
    u ''najwi'' @ [0x119] @ u ''kszy kontrakt'', u ''umowa wieloletnia'',
    u ''warto'' @ [0x15B] @ [0x107] @ u '' kontraktu'', u ''strategiczny kontrakt'',
    u ''kontrakt eksportowy'', u ''rozszerzenie wsp'' @ [0xF3] @ [0x142] @ u ''pracy'',
    u ''przed'' @ [0x142] @ u ''u'' @ [0x17C] @ u ''enie umowy''],
  negative_keywords = [
    u ''utrata kontraktu'', u ''rozwi'' @ [0x105] @ u ''zanie umowy'',
    u ''anulowanie kontraktu'', u ''przegra'' @ [0x142] @ u '' przetarg'',
    u ''kontrakt zagro'' @ [0x17C] @ u ''ony'', u ''sp'' @ [0xF3] @ u ''r o kontrakt'']\<rparr>"

definition MARKET_POSITION :: category where
  "MARKET_POSITION = \<lparr>cat_name = u ''MARKET_POSITION'', weight = fl (10 / 100),
  positive_keywords = [
    u ''lider rynku'', u ''wzrost udzia'' @ [0x142] @ u ''u'', u ''pozycja rynkowa'',
    u ''dominuj'' @ [0x105] @ u ''cy'', u ''przewaga konkurencyjna'',
    u ''zwi'' @ [0x119] @ u ''kszy'' @ [0x142] @ u '' udzia'' @ [0x142],
    u ''silna pozycja'', u ''konkurencyjno'' @ [0x15B] @ [0x107],
    u ''rozpoznawalno'' @ [0x15B] @ [0x107] @ u '' marki'', u ''brand value''],
  negative_keywords = [
    u ''utrata udzia'' @ [0x142] @ u ''u'', u ''spadek pozycji'',
    u ''konkurencja silniejsza'', u ''os'' @ [0x142] @ u ''abienie pozycji'',
    u ''presja konkurencyjna'']\<rparr>"

definition RISKS :: category where
  "RISKS = \<lparr>cat_name = u ''RISKS'', weight = fl (10 / 100),
  positive_keywords = [],
  negative_keywords = [
    u ''problem'', u ''kryzys'', u ''zagro'' @ [0x17C] @ u ''enie'', u ''ryzyko'',
    [0x15B] @ u ''ledztwo'', u ''post'' @ [0x119] @ u ''powanie'', u ''pozew'', u ''kara'',
    u ''sankcja'', u ''skandal'', u ''afera'', u ''konflikt'', u ''sp'' @ [0xF3] @ u ''r'',
    u ''ostrze'' @ [0x17C] @ u ''enie'', u ''rating obni'' @ [0x17C] @ u ''ony'',
    u ''podwy'' @ [0x17C] @ u ''szone ryzyko'', u ''zagro'' @ [0x17C] @ u ''ony'',
    u ''problemy finansowe'', u ''problemy operacyjne'', u ''zawieszenie'', u ''blokada'']\<rparr>"

definition FUNDAMENTAL_CATEGORIES :: "category list" where
  "FUNDAMENTAL_CATEGORIES = [EARNINGS, OUTLOOK, STRATEGY, CONTRACTS, MARKET_POSITION, RISKS]"

record category_score =
  net_score :: int
  weighted_score :: real
  positive_count :: int
  negative_count :: int

record analysis =
  total_score :: real
  categories :: "(str \<times> category_score) list"
  highlights :: "str list"

text \<open>
  One keyword loop of \<open>analyze_fundamentals\<close>: the counter and the shared
  \<open>highlights\<close> list are the loop state; \<open>sign\<close> is \<open>+\<close> or \<open>-\<close>.
\<close>

fun keyword_loop :: "str \<Rightarrow> str \<Rightarrow> str \<Rightarrow> str list \<Rightarrow> int \<times> str list \<Rightarrow> int \<times> str list" where
  "keyword_loop sign category_name text_lower [] (score, hl) = (score, hl)"
| "keyword_loop sign category_name text_lower (keyword # keywords) (score, hl) =
     (if str_in keyword text_lower
      then keyword_loop sign category_name text_lower keywords
             (score + 1,
              if length hl < 3 then hl @ [sign @ category_name @ u '': '' @ keyword] else hl)
      else keyword_loop sign category_name text_lower keywords (score, hl))"

text \<open>\<open>category_scores[category_name] = ...\<close> on an insertion-ordered dictionary.\<close>

fun dict_set :: "str \<Rightarrow> 'v \<Rightarrow> (str \<times> 'v) list \<Rightarrow> (str \<times> 'v) list" where
  "dict_set k v [] = [(k, v)]"
| "dict_set k v ((k', v') # d) = (if k' = k then (k, v) # d else (k', v') # dict_set k v d)"

text \<open>The loop over \<open>FUNDAMENTAL_CATEGORIES.items()\<close>; its state is the pair of
  \<open>category_scores\<close> and \<open>highlights\<close>.\<close>

fun category_loop :: "str \<Rightarrow> category list \<Rightarrow> (str \<times> category_score) list \<times> str list \<Rightarrow>
    (str \<times> category_score) list \<times> str list" where
  "category_loop text_lower [] (category_scores, hl) = (category_scores, hl)"
| "category_loop text_lower (category_data # rest) (category_scores, hl) =
     (let category_name = cat_name category_data;
          (positive_score, hl1) =
             keyword_loop (u ''+'') category_name text_lower (positive_keywords category_data) (0, hl);
          (negative_score, hl2) =
             keyword_loop (u ''-'') category_name text_lower (negative_keywords category_data) (0, hl1);
          net = positive_score - negative_score;
          weighted = fmul (float_of_int net) (weight category_data)
      in category_loop text_lower rest
           (dict_set category_name
              \<lparr>net_score = net, weighted_score = weighted,
               positive_count = positive_score, negative_count = negative_score\<rparr>
              category_scores,
            hl2))"

definition analyze_fundamentals ::
  "summation \<Rightarrow> category list \<Rightarrow> (str \<Rightarrow> str) \<Rightarrow> str \<Rightarrow> analysis" where
  "analyze_fundamentals sm cats lower text =
     (if text = [] then \<lparr>total_score = 0, categories = [], highlights = []\<rparr>
      else
        let text_lower = lower text;
            (category_scores, hl) = category_loop text_lower cats ([], [])
        in \<lparr>total_score = py_sum sm (map (\<lambda>(name, cat). weighted_score cat) category_scores),
            categories = category_scores,
            highlights = hl\<rparr>)"

datatype rating =
  VERY_BULLISH | BULLISH | SLIGHTLY_BULLISH | NEUTRAL | SLIGHTLY_BEARISH | BEARISH | VERY_BEARISH

definition get_fundamental_rating :: "real \<Rightarrow> rating" where
  "get_fundamental_rating score =
     (if score \<ge> 3.0 then VERY_BULLISH
      else if score \<ge> 1.5 then BULLISH
      else if score \<ge> 0.5 then SLIGHTLY_BULLISH
      else if score > - 0.5 then NEUTRAL
      else if score > - 1.5 then SLIGHTLY_BEARISH
      else if score > - 3.0 then BEARISH
      else VERY_BEARISH)"

text \<open>
  The scorer as the specification words it: the hits of a keyword list are its entries
  that occur in the lower-cased text, and a category's score record is built from the
  positive and negative hits and the weight, the product being that of Python: the net
  score converted to a float, times the weight, rounded.
\<close>

definition hits :: "str list \<Rightarrow> str \<Rightarrow> int" where
  "hits keywords text_lower = int (length (filter (\<lambda>k. \<exists>a b. text_lower = a @ k @ b) keywords))"

definition spec_category_score :: "str \<Rightarrow> category \<Rightarrow> category_score" where
  "spec_category_score text_lower c =
     \<lparr>net_score = hits (positive_keywords c) text_lower - hits (negative_keywords c) text_lower,
      weighted_score =
        fmul (float_of_int (hits (positive_keywords c) text_lower - hits (negative_keywords c) text_lower))
          (weight c),
      positive_count = hits (positive_keywords c) text_lower,
      negative_count = hits (negative_keywords c) text_lower\<rparr>"

section \<open>Configuration and environment of the crawler (Fundamental/fundamental\_screen.py)\<close>

text \<open>The module constants that the claims call the configuration.\<close>

record config =
  max_concurrent_requests :: nat
  max_retries :: nat
  max_pages_per_thread :: nat
  max_posts_per_thread :: nat
  max_thread_text_chars :: nat

definition default_config :: config where
  "default_config = \<lparr>max_concurrent_requests = 5, max_retries = 3, max_pages_per_thread = 5,
     max_posts_per_thread = 100, max_thread_text_chars = 20000\<rparr>"

text \<open>
  One \<open>client.get\<close> either answers with a status code and a body or raises.
\<close>

datatype outcome = Response nat str | Raised

text \<open>
  What the crawler does to the outside, in order: taking and giving back the semaphore,
  one HTTP GET, one \<open>asyncio.sleep\<close>. A sleep is recorded with its fixed part and its
  random part; its duration is their sum.
\<close>

datatype sleep_kind = Backoff503 | AfterException | BetweenPages

datatype event = Acquire | Release | Get str | Sleep sleep_kind real real

record world =
  gets :: nat
  draws :: nat
  log :: "event list"

text \<open>
  The libraries and the network, as the crawler sees them:
  \<^item> \<open>http_get n url\<close> is the outcome of a GET sent to \<open>url\<close> when the world's count of
    GETs stands at \<open>n\<close>;
  \<^item> \<open>rnd n\<close> is the value of \<open>random.random()\<close> when the world's count of draws stands
    at \<open>n\<close>;
  \<^item> \<open>css_text html sel\<close> lists \<open>node.text(separator=" ", strip=True)\<close> for the nodes of
    \<open>HTMLParser(html).css(sel)\<close>, in document order;
  \<^item> \<open>pagination_links html\<close> is the list
    \<open>[urljoin(BANKIER_BASE_URL, node.attributes.get('href')) for node in tree.css("nav.pagination a[href]")]\<close>,
    or \<open>None\<close> when building it raises.
\<close>

record env =
  http_get :: "nat \<Rightarrow> str \<Rightarrow> outcome"
  rnd :: "nat \<Rightarrow> real"
  css_text :: "str \<Rightarrow> str \<Rightarrow> str list"
  pagination_links :: "str \<Rightarrow> str list option"

section \<open>Fetcher\<close>

definition do_get :: "str \<Rightarrow> world \<Rightarrow> world" where
  "do_get url w = w\<lparr>gets := gets w + 1, log := log w @ [Get url]\<rparr>"

definition do_sleep :: "env \<Rightarrow> sleep_kind \<Rightarrow> real \<Rightarrow> world \<Rightarrow> world" where
  "do_sleep e kind fixed w =
     w\<lparr>draws := draws w + 1, log := log w @ [Sleep kind fixed (rnd e (draws w))]\<rparr>"

text \<open>
  The body of \<open>for attempt in range(MAX_RETRIES)\<close>, by recursion over the attempts still
  to make; \<open>continue\<close> is the recursive call and falling out of the loop is the empty list.
\<close>

fun fetch_loop :: "config \<Rightarrow> env \<Rightarrow> str \<Rightarrow> nat list \<Rightarrow> world \<Rightarrow> str option \<times> world" where
  "fetch_loop cfg e url [] w = (None, w)"
| "fetch_loop cfg e url (attempt # rest) w =
     (case http_get e (gets w) url of
        Response status_code body \<Rightarrow>
          if status_code = 200 then (Some body, do_get url w)
          else if status_code = 503 then
            fetch_loop cfg e url rest (do_sleep e Backoff503 (2 ^ attempt) (do_get url w))
          else (None, do_get url w)
      | Raised \<Rightarrow>
          if attempt < max_retries cfg - 1 then
            fetch_loop cfg e url rest (do_sleep e AfterException 1 (do_get url w))
          else (None, do_get url w))"

definition fetch_page :: "config \<Rightarrow> env \<Rightarrow> str \<Rightarrow> world \<Rightarrow> str option \<times> world" where
  "fetch_page cfg e url w = fetch_loop cfg e url [0..<max_retries cfg] w"

section \<open>Text extractor\<close>

text \<open>The characters that \<open>\s\<close> matches and \<open>str.strip\<close> removes.\<close>

definition is_space :: "nat \<Rightarrow> bool" where
  "is_space c \<longleftrightarrow>
     (9 \<le> c \<and> c \<le> 13) \<or> (28 \<le> c \<and> c \<le> 32) \<or> c = 0x85 \<or> c = 0xA0 \<or> c = 0x1680 \<or>
     (0x2000 \<le> c \<and> c \<le> 0x200A) \<or> c = 0x2028 \<or> c = 0x2029 \<or> c = 0x202F \<or> c = 0x205F \<or>
     c = 0x3000"

text \<open>\<open>re.sub(r"\s+", " ", t)\<close>: every maximal run of white space becomes one space.
  The flag says that the previous character belonged to a run.\<close>

fun sub_ws :: "bool \<Rightarrow> str \<Rightarrow> str" where
  "sub_ws in_run [] = []"
| "sub_ws in_run (c # t) =
     (if is_space c then (if in_run then sub_ws True t else 32 # sub_ws True t)
      else c # sub_ws False t)"

definition strip :: "str \<Rightarrow> str" where
  "strip t = rev (dropWhile is_space (rev (dropWhile is_space t)))"

definition clean :: "str \<Rightarrow> str" where
  "clean t = strip (sub_ws False t)"

definition selectors :: "str list" where
  "selectors = [u ''div.post-content'', u ''div.postContent'', u ''div.post__content'',
     u ''div.message'', u ''div.post-body'']"

text \<open>The deduplication loop; its state is \<open>unique\<close> and \<open>seen\<close>.\<close>

fun dedup_loop :: "str list \<Rightarrow> str list \<times> str set \<Rightarrow> str list" where
  "dedup_loop [] (unique, seen) = unique"
| "dedup_loop (t # ts) (unique, seen) =
     (let t_clean = clean t
      in if t_clean \<noteq> [] \<and> t_clean \<notin> seen
         then dedup_loop ts (unique @ [t_clean], insert t_clean seen)
         else dedup_loop ts (unique, seen))"

definition extract_posts_from_html :: "env \<Rightarrow> str \<Rightarrow> str list" where
  "extract_posts_from_html e html =
     (if html = [] then []
      else
        let texts = concat (map (\<lambda>sel. filter (\<lambda>text. length text > 15) (css_text e html sel))
                               selectors)
        in dedup_loop texts ([], {}))"

section \<open>Thread crawler\<close>

record thread =
  title :: str
  thread_url :: str

text \<open>
  The decimal digits of Python strings are the characters of Unicode category \<open>Nd\<close>. They
  come in runs of ten consecutive code points with the values 0 to 9; the table lists the
  zero of every run (Unicode 14, the database of CPython 3.11). Both \<open>\d\<close> in a
  pattern and \<open>int\<close> go by this table.
\<close>

definition decimal_zeros :: "nat list" where
  "decimal_zeros =
     [0x30, 0x660, 0x6F0, 0x7C0, 0x966, 0x9E6, 0xA66, 0xAE6, 0xB66, 0xBE6, 0xC66, 0xCE6, 0xD66,
      0xDE6, 0xE50, 0xED0, 0xF20, 0x1040, 0x1090, 0x17E0, 0x1810, 0x1946, 0x19D0, 0x1A80, 0x1A90,
      0x1B50, 0x1BB0, 0x1C40, 0x1C50, 0xA620, 0xA8D0, 0xA900, 0xA9D0, 0xA9F0, 0xAA50, 0xABF0,
      0xFF10, 0x104A0, 0x10D30, 0x11066, 0x110F0, 0x11136, 0x111D0, 0x112F0, 0x11450, 0x114D0,
      0x11650, 0x116C0, 0x11730, 0x118E0, 0x11950, 0x11C50, 0x11D50, 0x11DA0, 0x16A60, 0x16AC0,
      0x16B50, 0x1D7CE, 0x1D7D8, 0x1D7E2, 0x1D7EC, 0x1D7F6, 0x1E140, 0x1E2F0, 0x1E950, 0x1FBF0]"

definition digit_value :: "nat \<Rightarrow> nat option" where
  "digit_value c =
     (case filter (\<lambda>z. z \<le> c \<and> c < z + 10) decimal_zeros of
        [] \<Rightarrow> None
      | z # _ \<Rightarrow> Some (c - z))"

definition is_digit :: "nat \<Rightarrow> bool" where
  "is_digit c \<longleftrightarrow> digit_value c \<noteq> None"

text \<open>
  \<open>int(s)\<close> on a non-empty run of decimal digits: the number the digits denote, and a
  \<open>ValueError\<close> (here \<open>None\<close>) when the run is longer than the interpreter's limit on the
  conversion, 4300 digits unless configured otherwise.
\<close>

definition digits_value :: "str \<Rightarrow> nat" where
  "digits_value ds =
     foldl (\<lambda>n c. 10 * n + (case digit_value c of Some d \<Rightarrow> d | None \<Rightarrow> 0)) 0 ds"

definition int_max_str_digits :: nat where
  "int_max_str_digits = 4300"

definition int_of_digits :: "str \<Rightarrow> nat option" where
  "int_of_digits ds = (if length ds > int_max_str_digits then None else Some (digits_value ds))"

text \<open>
  \<open>re.search(r',(\d+)\.html', link)\<close>, returning \<open>group(1)\<close>: the digits after the leftmost
  comma that is followed by a non-empty run of digits and then \<open>.html\<close>. After a comma the
  greedy run of digits is the only candidate, because a shorter run is followed by a digit.
\<close>

definition match_after_comma :: "str \<Rightarrow> str option" where
  "match_after_comma s =
     (let ds = takeWhile is_digit s
      in if ds \<noteq> [] \<and> startswith (dropWhile is_digit s) (u ''.html'')
         then Some ds else None)"

fun page_match :: "str \<Rightarrow> str option" where
  "page_match [] = None"
| "page_match (c # s) =
     (if c = 44 then (case match_after_comma s of Some ds \<Rightarrow> Some ds | None \<Rightarrow> page_match s)
      else page_match s)"

text \<open>
  The loop that fills \<open>valid_pages\<close>. When \<open>int\<close> raises, the loop is left through the
  \<open>except\<close> clause around the whole pagination block; that is the result \<open>None\<close>.
\<close>

fun valid_pages :: "str \<Rightarrow> str list \<Rightarrow> (nat \<times> str) list option" where
  "valid_pages url [] = Some []"
| "valid_pages url (link # links) =
     (if link \<noteq> [] \<and> link \<noteq> url then
        (case page_match link of
           Some digits \<Rightarrow>
             (case int_of_digits digits of
                Some page_num \<Rightarrow>
                  (case valid_pages url links of
                     Some pages \<Rightarrow> Some ((page_num, link) # pages)
                   | None \<Rightarrow> None)
              | None \<Rightarrow> None)
         | None \<Rightarrow> valid_pages url links)
      else valid_pages url links)"

text \<open>
  The slice \<open>xs[:k]\<close>, in which a negative \<open>k\<close> counts from the end.
  \<open>valid_pages.sort(key=lambda x: x[0])\<close> is a stable sort, as \<open>sort_key\<close> is.
\<close>

definition slice_to :: "int \<Rightarrow> 'a list \<Rightarrow> 'a list" where
  "slice_to k xs = (if 0 \<le> k then take (nat k) xs else take (length xs - nat (- k)) xs)"

definition pages_to_fetch :: "config \<Rightarrow> str \<Rightarrow> str list \<Rightarrow> str list option" where
  "pages_to_fetch cfg url links =
     (case valid_pages url links of
        Some pages \<Rightarrow>
          Some (map snd (slice_to (int (max_pages_per_thread cfg) - 1) (sort_key fst pages)))
      | None \<Rightarrow> None)"

text \<open>\<open>" ".join(posts)\<close>\<close>

fun join_sp :: "str list \<Rightarrow> str" where
  "join_sp [] = []"
| "join_sp [p] = p"
| "join_sp (p # ps) = p @ [32] @ join_sp ps"

text \<open>The loop over \<open>pages_to_fetch\<close>; \<open>break\<close> returns the posts gathered so far.\<close>

fun page_loop :: "config \<Rightarrow> env \<Rightarrow> str list \<Rightarrow> str list \<Rightarrow> world \<Rightarrow> str list \<times> world" where
  "page_loop cfg e [] posts w = (posts, w)"
| "page_loop cfg e (page_url # rest) posts w =
     (if length posts \<ge> max_posts_per_thread cfg then (posts, w)
      else
        case fetch_page cfg e page_url w of
          (Some page_html, w1) \<Rightarrow>
            if page_html \<noteq> [] then
              page_loop cfg e rest (posts @ extract_posts_from_html e page_html)
                (w1\<lparr>log := log w1 @ [Sleep BetweenPages 0.3 0]\<rparr>)
            else page_loop cfg e rest posts w1
        | (None, w1) \<Rightarrow> page_loop cfg e rest posts w1)"

text \<open>
  \<open>process_thread\<close> returns the thread text; the model returns with it the posts it
  gathered (the final value of \<open>posts\<close>, empty on the early return) and the world.
  \<open>async with sem\<close> takes the semaphore on entry and gives it back on every way out.
\<close>

definition process_thread :: "config \<Rightarrow> env \<Rightarrow> thread \<Rightarrow> world \<Rightarrow> (str \<times> str list) \<times> world" where
  "process_thread cfg e thr w =
     (let w0 = w\<lparr>log := log w @ [Acquire]\<rparr>;
          (initial, w1) = fetch_page cfg e (thread_url thr) w0
      in case initial of
           None \<Rightarrow> ((title thr, []), w1\<lparr>log := log w1 @ [Release]\<rparr>)
         | Some initial_html \<Rightarrow>
             if initial_html = [] then ((title thr, []), w1\<lparr>log := log w1 @ [Release]\<rparr>)
             else
               let posts = extract_posts_from_html e initial_html;
                   (posts', w2) =
                     (if length posts < max_posts_per_thread cfg \<and> max_pages_per_thread cfg > 1
                      then (case pagination_links e initial_html of
                              Some links \<Rightarrow>
                                (case pages_to_fetch cfg (thread_url thr) links of
                                   Some pages \<Rightarrow> page_loop cfg e pages posts w1
                                 | None \<Rightarrow> (posts, w1))
                            | None \<Rightarrow> (posts, w1))
                      else (posts, w1));
                   combined_text = strip (title thr @ [32] @ join_sp posts')
               in ((take (max_thread_text_chars cfg) combined_text, posts'),
                   w2\<lparr>log := log w2 @ [Release]\<rparr>))"

text \<open>
  The pagination links that pass the tests of the \<open>valid_pages\<close> loop: not empty, not the
  thread's own address, and with a run of digits that \<open>page_match\<close> finds; the number
  that the digits of such a link denote; and whether \<open>int\<close> converts the digits of every
  such link.
\<close>

definition numbered_links :: "str \<Rightarrow> str list \<Rightarrow> str list" where
  "numbered_links url links = filter (\<lambda>link. link \<noteq> [] \<and> link \<noteq> url \<and> page_match link \<noteq> None) links"

definition page_number :: "str \<Rightarrow> nat" where
  "page_number link = (case page_match link of Some digits \<Rightarrow> digits_value digits | None \<Rightarrow> 0)"

definition convertible :: "str \<Rightarrow> bool" where
  "convertible link =
     (case page_match link of Some digits \<Rightarrow> length digits \<le> int_max_str_digits | None \<Rightarrow> True)"

text \<open>
  The selection as the specification words it: the numbered links, sorted ascending by
  page number, cut to one less than the page cap.
\<close>

definition selected_pages :: "config \<Rightarrow> str \<Rightarrow> str list \<Rightarrow> str list" where
  "selected_pages cfg url links =
     take (max_pages_per_thread cfg - 1) (sort_key page_number (numbered_links url links))"

section \<open>The fetcher's contract\<close>

text \<open>
  The contract of the fetcher in closed form, for a fetch of \<open>url\<close> that starts in world
  \<open>w\<close>. \<open>answers a\<close> is what attempt \<open>a\<close> meets. An attempt is retried after a 503 and
  after an exception; the fetch makes attempts until one is not retried or the configured
  number is reached. Each attempt is one GET, followed by a sleep of \<open>2 ^ a\<close> plus a random
  part after a 503, and of \<open>1\<close> plus a random part after an exception that is not on the
  last attempt. The result is the body of a final 200 answer and \<open>None\<close> otherwise.
\<close>

definition answers :: "env \<Rightarrow> str \<Rightarrow> world \<Rightarrow> nat \<Rightarrow> outcome" where
  "answers e url w a = http_get e (gets w + a) url"

definition retryable :: "outcome \<Rightarrow> bool" where
  "retryable x = (case x of Response status_code body \<Rightarrow> status_code = 503 | Raised \<Rightarrow> True)"

definition attempts_made :: "config \<Rightarrow> env \<Rightarrow> str \<Rightarrow> world \<Rightarrow> nat" where
  "attempts_made cfg e url w =
     min (max_retries cfg)
       (Suc (length (takeWhile (\<lambda>a. retryable (answers e url w a)) [0..<max_retries cfg])))"

definition attempt_events :: "config \<Rightarrow> env \<Rightarrow> str \<Rightarrow> world \<Rightarrow> nat \<Rightarrow> event list" where
  "attempt_events cfg e url w a =
     Get url #
     (case answers e url w a of
        Response status_code body \<Rightarrow>
          if status_code = 503 then [Sleep Backoff503 (2 ^ a) (rnd e (draws w + a))] else []
      | Raised \<Rightarrow>
          if a < max_retries cfg - 1 then [Sleep AfterException 1 (rnd e (draws w + a))] else [])"

definition events_upto :: "config \<Rightarrow> env \<Rightarrow> str \<Rightarrow> world \<Rightarrow> nat \<Rightarrow> event list" where
  "events_upto cfg e url w n = concat (map (attempt_events cfg e url w) [0..<n])"

definition fetch_result :: "config \<Rightarrow> env \<Rightarrow> str \<Rightarrow> world \<Rightarrow> str option" where
  "fetch_result cfg e url w =
     (let n = attempts_made cfg e url w
      in if n = 0 then None
         else case answers e url w (n - 1) of
                Response status_code body \<Rightarrow> if status_code = 200 then Some body else None
              | Raised \<Rightarrow> None)"

fun is_sleep :: "event \<Rightarrow> bool" where
  "is_sleep (Sleep kind fixed jitter) = True"
| "is_sleep ev = False"

fun is_get :: "event \<Rightarrow> bool" where
  "is_get (Get url) = True"
| "is_get ev = False"

text \<open>The fixed parts of the sleeps that follow a 503, in the order of the log.\<close>

fun backoff_delays :: "event list \<Rightarrow> real list" where
  "backoff_delays [] = []"
| "backoff_delays (Sleep Backoff503 fixed jitter # evs) = fixed # backoff_delays evs"
| "backoff_delays (ev # evs) = backoff_delays evs"

fun is_503 :: "outcome \<Rightarrow> bool" where
  "is_503 (Response status_code body) = (status_code = 503)"
| "is_503 Raised = False"

text \<open>The world after the first \<open>n\<close> attempts of the fetch.\<close>

definition world_after :: "config \<Rightarrow> env \<Rightarrow> str \<Rightarrow> world \<Rightarrow> nat \<Rightarrow> world" where
  "world_after cfg e url w n =
     w\<lparr>gets := gets w + n,
       draws := draws w + length (filter is_sleep (events_upto cfg e url w n)),
       log := log w @ events_upto cfg e url w n\<rparr>"

text \<open>The addresses of the GETs of a log, in order.\<close>

fun get_urls :: "event list \<Rightarrow> str list" where
  "get_urls [] = []"
| "get_urls (Get url # evs) = url # get_urls evs"
| "get_urls (ev # evs) = get_urls evs"

section \<open>Text extractor of the browser-driven pipeline (Bankier\_sentyment/sentiment\_analyzer.py)\<close>

text \<open>
  \<open>extract_post_texts_from_thread_soup\<close> takes a parsed page; \<open>select_text sel\<close> lists
  \<open>el.get_text(separator=" ", strip=True)\<close> for the elements of \<open>thread_soup.select(sel)\<close>.
  Its deduplication loop is the one of \<open>extract_posts_from_html\<close>.
\<close>

definition soup_selectors :: "str list" where
  "soup_selectors = [u ''div.post-content'', u ''div.postContent'', u ''div.post__content'',
     u ''div.message'', u ''div.messageContent'', u ''div.post-body'', u ''div.postBody'']"

definition extract_post_texts_from_thread_soup :: "(str \<Rightarrow> str list) \<Rightarrow> str list" where
  "extract_post_texts_from_thread_soup select_text =
     (let texts = concat (map (\<lambda>sel. filter (\<lambda>txt. txt \<noteq> [] \<and> \<not> length txt < 15) (select_text sel))
                            soup_selectors)
      in dedup_loop texts ([], {}))"

section \<open>The extractor's contract\<close>

text \<open>
  The texts that the selectors match on a page, selector by selector, and the list of
  first occurrences of a list (\<open>remdups\<close> keeps last occurrences).
\<close>

definition matched_texts :: "env \<Rightarrow> str \<Rightarrow> str list" where
  "matched_texts e html = (if html = [] then [] else concat (map (css_text e html) selectors))"

definition first_seen :: "'a list \<Rightarrow> 'a list" where
  "first_seen xs = rev (remdups (rev xs))"

text \<open>White space is collapsed in a text when every white-space character is a single
  space that does not follow another one (\<open>prev\<close>: the text follows white space).\<close>

fun collapsed :: "bool \<Rightarrow> str \<Rightarrow> bool" where
  "collapsed prev [] = True"
| "collapsed prev (c # t) =
     (if is_space c then c = 32 \<and> \<not> prev \<and> collapsed True t else collapsed False t)"

section \<open>Thread crawl and rollup of the browser-driven pipeline (Bankier\_sentyment/sentiment\_analyzer.py)\<close>

text \<open>
  This pipeline has its own caps: \<open>MAX_PAGES_PER_THREAD = 2\<close>, \<open>MAX_POSTS_PER_THREAD = 40\<close>
  and \<open>MAX_THREAD_TEXT_CHARS = 6000\<close>. It has no retries and no semaphore; the first two
  fields of \<open>browser_config\<close> are not read by it.
\<close>

definition browser_config :: config where
  "browser_config = \<lparr>max_concurrent_requests = 1, max_retries = 1, max_pages_per_thread = 2,
     max_posts_per_thread = 40, max_thread_text_chars = 6000\<rparr>"

text \<open>
  A parsed page: \<open>select_text\<close> as above, and \<open>candidates\<close>, the list that
  \<open>extract_representative_thread_pages\<close> collects from the pagination and \<open>rel\<close> links
  (absolute addresses, possibly empty ones). \<open>navigate n url\<close> is the page that the
  \<open>n\<close>-th \<open>driver.get\<close> of the run shows for \<open>url\<close>, or \<open>None\<close> when it raises.
\<close>

record soup =
  select_text :: "str \<Rightarrow> str list"
  candidates :: "str list"

type_synonym browser = "nat \<Rightarrow> str \<Rightarrow> soup option"

text \<open>The loop \<open>for u in candidates: if u and u not in uniq: uniq.append(u)\<close>.\<close>

fun uniq_loop :: "str list \<Rightarrow> str list \<Rightarrow> str list" where
  "uniq_loop [] uniq = uniq"
| "uniq_loop (c # cs) uniq =
     (if c \<noteq> [] \<and> c \<notin> set uniq then uniq_loop cs (uniq @ [c]) else uniq_loop cs uniq)"

text \<open>The loop \<open>for u in uniq\<close> that fills \<open>selected\<close> up to \<open>max_pages\<close>.\<close>

fun select_loop :: "nat \<Rightarrow> str list \<Rightarrow> str list \<Rightarrow> str list" where
  "select_loop max_pages [] selected = selected"
| "select_loop max_pages (c # cs) selected =
     (if length selected \<ge> max_pages then selected
      else if c \<notin> set selected then select_loop max_pages cs (selected @ [c])
      else select_loop max_pages cs selected)"

definition extract_representative_thread_pages :: "soup \<Rightarrow> str \<Rightarrow> nat \<Rightarrow> str list" where
  "extract_representative_thread_pages thread_soup current_url max_pages =
     (if max_pages \<le> 1 then [current_url]
      else
        let uniq = uniq_loop (candidates thread_soup) []
        in if uniq = [] then [current_url]
           else
             let selected = [current_url];
                 selected = (if last uniq \<notin> set selected then selected @ [last uniq] else selected)
             in take max_pages (select_loop max_pages uniq selected))"

text \<open>
  The loop over the texts of one page in \<open>scrape_thread_posts\<close>; the flag says that the
  function returned from inside it because the cap was reached.
\<close>

fun post_loop :: "config \<Rightarrow> str list \<Rightarrow> str list \<Rightarrow> str list \<times> bool" where
  "post_loop cfg [] posts = (posts, False)"
| "post_loop cfg (txt # txts) posts =
     (let posts = (if txt \<notin> set posts then posts @ [txt] else posts)
      in if length posts \<ge> max_posts_per_thread cfg then (posts, True)
         else post_loop cfg txts posts)"

text \<open>The loop over \<open>page_urls\<close>; an exception returns the posts gathered so far.\<close>

fun browse_loop ::
  "config \<Rightarrow> browser \<Rightarrow> str \<Rightarrow> str list \<Rightarrow> soup \<Rightarrow> str list \<Rightarrow> nat \<Rightarrow> str list \<times> nat" where
  "browse_loop cfg b t_url [] current posts n = (posts, n)"
| "browse_loop cfg b t_url (page_url # rest) current posts n =
     (if page_url \<noteq> t_url then
        (case b n page_url of
           None \<Rightarrow> (posts, n + 1)
         | Some shown \<Rightarrow>
             (case post_loop cfg (extract_post_texts_from_thread_soup (select_text shown)) posts of
                (posts', True) \<Rightarrow> (posts', n + 1)
              | (posts', False) \<Rightarrow> browse_loop cfg b t_url rest shown posts' (n + 1)))
      else
        (case post_loop cfg (extract_post_texts_from_thread_soup (select_text current)) posts of
           (posts', True) \<Rightarrow> (posts', n)
         | (posts', False) \<Rightarrow> browse_loop cfg b t_url rest current posts' n))"

definition scrape_thread_posts :: "config \<Rightarrow> browser \<Rightarrow> str \<Rightarrow> nat \<Rightarrow> str list \<times> nat" where
  "scrape_thread_posts cfg b t_url n =
     (if t_url = [] then ([], n)
      else case b n t_url of
             None \<Rightarrow> ([], n + 1)
           | Some shown \<Rightarrow>
               browse_loop cfg b t_url
                 (extract_representative_thread_pages shown t_url (max_pages_per_thread cfg))
                 shown [] (n + 1))"

text \<open>Lines 308 to 310 of \<open>scrape_company_sentiment\<close>: the text of one thread.\<close>

definition browser_thread_text :: "config \<Rightarrow> str \<Rightarrow> str list \<Rightarrow> str" where
  "browser_thread_text cfg tytul thread_posts =
     (let thread_text = strip (tytul @ [32] @ join_sp thread_posts)
      in if length thread_text > max_thread_text_chars cfg
         then take (max_thread_text_chars cfg) thread_text else thread_text)"

text \<open>The loop over \<open>threads_data\<close> (titles and addresses) that fills \<open>sentiments\<close>.\<close>

fun sentiments_loop ::
  "config \<Rightarrow> browser \<Rightarrow> (str \<Rightarrow> str) \<Rightarrow> (str \<times> str) list \<Rightarrow> nat \<Rightarrow> sentiment list \<times> nat" where
  "sentiments_loop cfg b lower [] n = ([], n)"
| "sentiments_loop cfg b lower ((tytul, t_url) # items) n =
     (let (thread_posts, n1) = scrape_thread_posts cfg b t_url n;
          thread_text = browser_thread_text cfg tytul thread_posts;
          (label, score) = analyze_sentiment lower thread_text;
          (labels, n2) = sentiments_loop cfg b lower items n1
      in (label # labels, n2))"

text \<open>The thread texts that the loop scores, one for each entry of \<open>threads_data\<close>.\<close>

fun browser_thread_texts :: "config \<Rightarrow> browser \<Rightarrow> (str \<times> str) list \<Rightarrow> nat \<Rightarrow> str list" where
  "browser_thread_texts cfg b [] n = []"
| "browser_thread_texts cfg b ((tytul, t_url) # items) n =
     (let (thread_posts, n1) = scrape_thread_posts cfg b t_url n
      in browser_thread_text cfg tytul thread_posts # browser_thread_texts cfg b items n1)"

datatype overall = OVERALL_BULLISH | OVERALL_BEARISH | OVERALL_POZYT | OVERALL_NEGAT | OVERALL_NEUTR

record sentiment_result =
  sr_company :: str
  sr_threads :: nat
  sr_positive :: nat
  sr_negative :: nat
  sr_neutral :: nat
  sr_overall :: overall

text \<open>
  The rollup of \<open>scrape_company_sentiment\<close> from \<open>threads_data\<close> on (lines 300 to 345),
  without the two percentage strings.
\<close>

definition company_sentiment ::
  "config \<Rightarrow> browser \<Rightarrow> (str \<Rightarrow> str) \<Rightarrow> str \<Rightarrow> (str \<times> str) list \<Rightarrow> nat \<Rightarrow> sentiment_result option" where
  "company_sentiment cfg b lower company_name threads_data n =
     (if threads_data = [] then None
      else
        let (sentiments, n1) = sentiments_loop cfg b lower threads_data n;
            positive_count = count_list sentiments POZYTYWNY;
            negative_count = count_list sentiments NEGATYWNY;
            neutral_count = count_list sentiments NEUTRALNY;
            overall =
              (if real positive_count > fmul (float_of_int (int negative_count)) 1.5
               then OVERALL_BULLISH
               else if real negative_count > fmul (float_of_int (int positive_count)) 1.5
               then OVERALL_BEARISH
               else if positive_count > negative_count then OVERALL_POZYT
               else if negative_count > positive_count then OVERALL_NEGAT
               else OVERALL_NEUTR)
        in Some \<lparr>sr_company = company_name, sr_threads = length sentiments,
             sr_positive = positive_count, sr_negative = negative_count,
             sr_neutral = neutral_count, sr_overall = overall\<rparr>)"

section \<open>Company processor (Fundamental/fundamental\_screen.py)\<close>

text \<open>
  One row of the thread table as the processor reads it: the text and the \<open>href\<close> of
  \<open>td.threadTitle a\<close> and the text of \<open>td.createDate\<close>, each absent when the row has no
  such node.
\<close>

record row =
  title_node :: "(str \<times> str option) option"
  date_node :: "str option"

text \<open>
  The listing page through the libraries:
  \<^item> \<open>css_rows html sel\<close> are the rows of \<open>HTMLParser(html).css(sel)\<close>;
  \<^item> \<open>urljoin href\<close> is \<open>urljoin(BANKIER_BASE_URL, href)\<close>, which raises \<open>ValueError\<close> on
    some malformed addresses (\<open>//[\<close> is one);
  \<^item> \<open>parse_thread_date\<close> is the function of that name, which reads the clock, with
    times as minutes; \<open>date_limit\<close> is \<open>DATE_LIMIT\<close>.
\<close>

datatype error = ValueError

record forum =
  css_rows :: "str \<Rightarrow> str \<Rightarrow> row list"
  urljoin :: "str option \<Rightarrow> error + str"
  parse_thread_date :: "str \<Rightarrow> int option"
  date_limit :: int

record company_result =
  Spolka :: str
  Wynik :: real
  Rating :: rating
  Watki :: nat
  Highlights :: str

text \<open>
  The loop over the rows that fills \<open>threads_to_scrape\<close>. The call of \<open>urljoin\<close> is not
  inside a \<open>try\<close>: when it raises, the loop and \<open>process_company\<close> are left with the
  exception.
\<close>

fun threads_of_rows :: "forum \<Rightarrow> row list \<Rightarrow> error + thread list" where
  "threads_of_rows f [] = Inr []"
| "threads_of_rows f (r # rows) =
     (case (title_node r, date_node r) of
        (Some (title_text, href), Some date_str) \<Rightarrow>
          (case parse_thread_date f date_str of
             Some thread_date \<Rightarrow>
               if thread_date \<ge> date_limit f
               then (case urljoin f href of
                       Inl err \<Rightarrow> Inl err
                     | Inr full_url \<Rightarrow>
                         (case threads_of_rows f rows of
                            Inl err \<Rightarrow> Inl err
                          | Inr threads \<Rightarrow> Inr (\<lparr>title = title_text, thread_url = full_url\<rparr> # threads)))
               else threads_of_rows f rows
           | None \<Rightarrow> threads_of_rows f rows)
      | _ \<Rightarrow> threads_of_rows f rows)"

definition threads_to_scrape :: "forum \<Rightarrow> str \<Rightarrow> error + thread list" where
  "threads_to_scrape f html =
     (let rows = css_rows f html (u ''table.threadsList tbody tr'');
          rows = (if rows = [] then css_rows f html (u ''table#threadsList tbody tr'') else rows)
      in threads_of_rows f rows)"

text \<open>
  \<open>asyncio.gather\<close> over one \<open>process_thread\<close> per thread returns the texts in the order
  of the threads. The tasks run interleaved and share nothing but the semaphore, so what
  a task returns depends only on what its own requests meet. The model gives every task
  an environment of its own, \<open>te i\<close> for the task of the \<open>i\<close>-th thread, and a copy of the
  world in which the tasks were created; it returns each task's text with the world that
  the task leaves. No order between the requests of different tasks is fixed by this.
\<close>

definition gather_threads ::
  "config \<Rightarrow> (nat \<Rightarrow> env) \<Rightarrow> thread list \<Rightarrow> world \<Rightarrow> (str \<times> world) list" where
  "gather_threads cfg te threads w =
     map (\<lambda>i. let (r, w') = process_thread cfg (te i) (threads ! i) w in (fst r, w'))
       [0..<length threads]"

text \<open>\<open>"; ".join(...)\<close>\<close>

fun join_semicolon :: "str list \<Rightarrow> str" where
  "join_semicolon [] = []"
| "join_semicolon [p] = p"
| "join_semicolon (p # ps) = p @ u ''; '' @ join_semicolon ps"

text \<open>The block \<open>async with sem: html = await fetch_page(client, url)\<close>.\<close>

definition fetch_listing :: "config \<Rightarrow> env \<Rightarrow> str \<Rightarrow> world \<Rightarrow> str option \<times> world" where
  "fetch_listing cfg e url w =
     (let (fetched, w1) = fetch_page cfg e url (w\<lparr>log := log w @ [Acquire]\<rparr>)
      in (fetched, w1\<lparr>log := log w1 @ [Release]\<rparr>))"

text \<open>
  \<open>process_company\<close> returns the company record, \<open>None\<close>, or leaves with an exception
  (\<open>Inl\<close>). The model returns with it the world after the listing block and the worlds
  left by the thread tasks.
\<close>

definition process_company ::
  "summation \<Rightarrow> config \<Rightarrow> env \<Rightarrow> (nat \<Rightarrow> env) \<Rightarrow> forum \<Rightarrow> (str \<Rightarrow> str) \<Rightarrow> str \<Rightarrow> str \<Rightarrow>
     world \<Rightarrow> (error + company_result option) \<times> world \<times> world list" where
  "process_company sm cfg e te f lower name url w =
     (let (fetched, w2) = fetch_listing cfg e url w
      in case fetched of
           None \<Rightarrow> (Inr None, w2, [])
         | Some html \<Rightarrow>
             if html = [] then (Inr None, w2, [])
             else
               case threads_to_scrape f html of
                 Inl err \<Rightarrow> (Inl err, w2, [])
               | Inr threads \<Rightarrow>
                   if threads = [] then
                     (Inr (Some \<lparr>Spolka = name, Wynik = 0, Rating = NEUTRAL, Watki = 0,
                        Highlights = u ''Brak dyskusji''\<rparr>), w2, [])
                   else
                     let gathered = gather_threads cfg te threads w2;
                         thread_texts = map fst gathered;
                         combined_text = join_sp thread_texts;
                         an = analyze_fundamentals sm FUNDAMENTAL_CATEGORIES lower combined_text;
                         highlights_str =
                           (if highlights an \<noteq> [] then join_semicolon (take 3 (highlights an))
                            else u ''Brak wykrytych sygna'' @ [0x142, 0xF3] @ u ''w'')
                     in (Inr (Some \<lparr>Spolka = name, Wynik = round2 (total_score an),
                           Rating = get_fundamental_rating (total_score an),
                           Watki = length threads, Highlights = highlights_str\<rparr>),
                         w2, map snd gathered))"

section \<open>The concurrency gate\<close>

text \<open>
  \<open>main\<close> creates one \<open>asyncio.Semaphore(MAX_CONCURRENT_REQUESTS)\<close> and hands it to every
  \<open>process_company\<close>, which hands it on to every \<open>process_thread\<close>. What a task does to the
  outside is the part of the log that it writes: for a company task the block that fetches
  the listing page, for a thread task the whole of \<open>process_thread\<close>.
\<close>

definition company_script :: "config \<Rightarrow> env \<Rightarrow> str \<Rightarrow> world \<Rightarrow> event list" where
  "company_script cfg e url w = drop (length (log w)) (log (snd (fetch_listing cfg e url w)))"

definition thread_script :: "config \<Rightarrow> env \<Rightarrow> thread \<Rightarrow> world \<Rightarrow> event list" where
  "thread_script cfg e thr w = drop (length (log w)) (log (snd (process_thread cfg e thr w)))"

text \<open>
  The run of the event loop. A task is the script it has still to perform, whether it
  holds the semaphore, and whether a GET of its own is outstanding. The tasks run
  interleaved; a step is taken by one task:
  \<^item> \<open>Acquire\<close> can be performed only while the semaphore's value is positive and
    decrements it (a task that finds the value 0 waits);
  \<^item> \<open>Get\<close> sends a request, which stays outstanding until its answer arrives; the
    task goes on only after that;
  \<^item> \<open>Sleep\<close> lets time pass;
  \<^item> \<open>Release\<close> increments the value;
  \<^item> at any time a new company task or thread task may be created, with the script of
    a \<open>process_company\<close> or \<open>process_thread\<close> call in any environment.
\<close>

record task =
  script :: "event list"
  holding :: bool
  in_flight :: bool

record system =
  sem :: nat
  tasks :: "task list"

definition initial :: "config \<Rightarrow> system" where
  "initial cfg = \<lparr>sem = max_concurrent_requests cfg, tasks = []\<rparr>"

inductive step :: "config \<Rightarrow> system \<Rightarrow> system \<Rightarrow> bool" for cfg :: config where
  acquire:
    "i < length (tasks s) \<Longrightarrow> script (tasks s ! i) = Acquire # rest \<Longrightarrow>
     \<not> in_flight (tasks s ! i) \<Longrightarrow> 0 < sem s \<Longrightarrow>
     step cfg s (s\<lparr>sem := sem s - 1,
       tasks := (tasks s)[i := (tasks s ! i)\<lparr>script := rest, holding := True\<rparr>]\<rparr>)"
| send:
    "i < length (tasks s) \<Longrightarrow> script (tasks s ! i) = Get url # rest \<Longrightarrow>
     \<not> in_flight (tasks s ! i) \<Longrightarrow>
     step cfg s (s\<lparr>tasks := (tasks s)[i := (tasks s ! i)\<lparr>script := rest, in_flight := True\<rparr>]\<rparr>)"
| receive:
    "i < length (tasks s) \<Longrightarrow> in_flight (tasks s ! i) \<Longrightarrow>
     step cfg s (s\<lparr>tasks := (tasks s)[i := (tasks s ! i)\<lparr>in_flight := False\<rparr>]\<rparr>)"
| sleep:
    "i < length (tasks s) \<Longrightarrow> script (tasks s ! i) = Sleep kind fixed jitter # rest \<Longrightarrow>
     \<not> in_flight (tasks s ! i) \<Longrightarrow>
     step cfg s (s\<lparr>tasks := (tasks s)[i := (tasks s ! i)\<lparr>script := rest\<rparr>]\<rparr>)"
| release:
    "i < length (tasks s) \<Longrightarrow> script (tasks s ! i) = Release # rest \<Longrightarrow>
     \<not> in_flight (tasks s ! i) \<Longrightarrow>
     step cfg s (s\<lparr>sem := sem s + 1,
       tasks := (tasks s)[i := (tasks s ! i)\<lparr>script := rest, holding := False\<rparr>]\<rparr>)"
| spawn_company:
    "step cfg s (s\<lparr>tasks := tasks s @
       [\<lparr>script = company_script cfg e url w, holding = False, in_flight = False\<rparr>]\<rparr>)"
| spawn_thread:
    "step cfg s (s\<lparr>tasks := tasks s @
       [\<lparr>script = thread_script cfg e thr w, holding = False, in_flight = False\<rparr>]\<rparr>)"

inductive reachable :: "config \<Rightarrow> system \<Rightarrow> bool" for cfg :: config where
  reach_start: "reachable cfg (initial cfg)"
| reach_step: "reachable cfg s \<Longrightarrow> step cfg s s' \<Longrightarrow> reachable cfg s'"

text \<open>The invariant of the run.\<close>

fun quiet :: "event \<Rightarrow> bool" where
  "quiet (Get url) = True"
| "quiet (Sleep kind fixed jitter) = True"
| "quiet ev = False"

definition task_ok :: "task \<Rightarrow> bool" where
  "task_ok t =
     (if holding t then (\<exists>body. script t = body @ [Release] \<and> list_all quiet body)
      else \<not> in_flight t \<and>
           (script t = [] \<or> (\<exists>body. script t = Acquire # body @ [Release] \<and> list_all quiet body)))"

definition gate_inv :: "config \<Rightarrow> system \<Rightarrow> bool" where
  "gate_inv cfg s \<longleftrightarrow>
     sem s + length (filter holding (tasks s)) = max_concurrent_requests cfg \<and>
     list_all task_ok (tasks s)"

section \<open>Concrete inputs\<close>

text \<open>
  A page on which \<open>div.message\<close> matches four nodes: a text of 17 characters whose middle
  is a run of 15 spaces, a short label, a sentence, and the first text again.
\<close>

definition spaced_text :: str where
  "spaced_text = u ''a               b''"

definition noisy_env :: env where
  "noisy_env = \<lparr>http_get = (\<lambda>n url. Raised), rnd = (\<lambda>n. 0),
     css_text = (\<lambda>html sel. if sel = u ''div.message''
        then [spaced_text, u ''Odpowiedz'', u ''to jest bardzo dobry wynik'', spaced_text] else []),
     pagination_links = (\<lambda>html. Some [])\<rparr>"

text \<open>An idle world, a thread, and a thread with a title of 20001 characters.\<close>

definition w0 :: world where
  "w0 = \<lparr>gets = 0, draws = 0, log = []\<rparr>"

definition thread_x :: thread where
  "thread_x = \<lparr>title = u ''Wyniki kwartalne'',
     thread_url = u ''https://www.bankier.pl/forum/temat_x,1.html''\<rparr>"

definition long_title_thread :: thread where
  "long_title_thread = \<lparr>title = replicate 20001 97,
     thread_url = u ''https://www.bankier.pl/forum/temat_x,1.html''\<rparr>"

text \<open>
  A forum whose every page answers 200 at once, holds 51 different posts of 16 to 66
  characters under \<open>div.message\<close>, and links to a second page.
\<close>

definition many_posts :: "nat \<Rightarrow> str list" where
  "many_posts n = map (\<lambda>i. replicate 16 97 @ replicate i 98) [0..<n]"

definition busy_env :: env where
  "busy_env = \<lparr>http_get = (\<lambda>n url. Response 200 (u ''<html>'')), rnd = (\<lambda>n. 0),
     css_text = (\<lambda>html sel. if sel = u ''div.message'' then many_posts 51 else []),
     pagination_links = (\<lambda>html. Some [u ''https://www.bankier.pl/forum/temat_x,1,2.html''])\<rparr>"

text \<open>
  The scenario of the specification: the first page has one post and pagination links to
  the pages 2, 5 and 3, and the page cap is 3.
\<close>

definition cap3_config :: config where
  "cap3_config = default_config\<lparr>max_pages_per_thread := 3\<rparr>"

definition paged_env :: env where
  "paged_env = \<lparr>http_get = (\<lambda>n url. Response 200 (u ''<html>'')), rnd = (\<lambda>n. 0),
     css_text = (\<lambda>html sel. if sel = u ''div.message'' then [u ''to jest bardzo dobry wynik''] else []),
     pagination_links = (\<lambda>html. Some [u ''https://www.bankier.pl/forum/temat_x,1,2.html'',
        u ''https://www.bankier.pl/forum/temat_x,1,5.html'',
        u ''https://www.bankier.pl/forum/temat_x,1,3.html''])\<rparr>"

text \<open>
  The same forum with two pagination links: one to page 2 and one whose page index is a
  run of 4301 digits. And a link whose page index is the Arabic-Indic digit two.
\<close>

definition overlong_link :: str where
  "overlong_link = u ''https://www.bankier.pl/forum/temat_x,1,'' @ replicate 4301 49 @ u ''.html''"

definition overlong_env :: env where
  "overlong_env = \<lparr>http_get = (\<lambda>n url. Response 200 (u ''<html>'')), rnd = (\<lambda>n. 0),
     css_text = (\<lambda>html sel. if sel = u ''div.message'' then [u ''to jest bardzo dobry wynik''] else []),
     pagination_links = (\<lambda>html. Some [u ''https://www.bankier.pl/forum/temat_x,1,2.html'',
        overlong_link])\<rparr>"

definition arabic_link :: str where
  "arabic_link = u ''https://www.bankier.pl/forum/temat_x,1,'' @ [0x662] @ u ''.html''"

text \<open>
  Two companies on a forum whose listing page answers 200 and whose thread pages all
  raise, so that every thread text is the thread's title. The threads of the first
  are titled \<open>nowy\<close> and \<open>kontrakt\<close>, those of the second \<open>nowy\<close> and \<open>nowy\<close>. A third
  listing has the rows of the first and a row whose address is \<open>//[\<close>, on which
  \<open>urljoin\<close> raises.
\<close>

definition listing_env :: env where
  "listing_env = \<lparr>http_get = (\<lambda>n url. if n = 0 then Response 200 url else Raised), rnd = (\<lambda>n. 0),
     css_text = (\<lambda>html sel. []), pagination_links = (\<lambda>html. Some [])\<rparr>"

definition two_rows :: "str \<Rightarrow> str \<Rightarrow> row list" where
  "two_rows a b =
     [\<lparr>title_node = Some (a, Some (u ''/forum/temat_a,1.html'')), date_node = Some (u ''2026-11-03 10:15'')\<rparr>,
      \<lparr>title_node = Some (b, Some (u ''/forum/temat_b,2.html'')), date_node = Some (u ''2026-11-03 11:20'')\<rparr>]"

definition broken_row :: row where
  "broken_row = \<lparr>title_node = Some (u ''nowy'', Some (u ''//['')), date_node = Some (u ''2026-11-03 12:00'')\<rparr>"

definition two_forum :: forum where
  "two_forum = \<lparr>css_rows = (\<lambda>html sel.
        if sel = u ''table.threadsList tbody tr'' then
          (if html = u ''A'' then two_rows (u ''nowy'') (u ''kontrakt'')
           else if html = u ''C'' then two_rows (u ''nowy'') (u ''kontrakt'') @ [broken_row]
           else two_rows (u ''nowy'') (u ''nowy''))
        else []),
     urljoin = (\<lambda>href. case href of
        Some h \<Rightarrow> if h = u ''//['' then Inl ValueError else Inr (u ''https://www.bankier.pl'' @ h)
      | None \<Rightarrow> Inr (u ''https://www.bankier.pl'')),
     parse_thread_date = (\<lambda>s. Some 100), date_limit = 0\<rparr>"

text \<open>
  A run of the event loop: the task of \<open>thread_x\<close> on the forum of \<open>noisy_env\<close> is
  created, takes the semaphore and sends its first request.
\<close>

definition gate_s1 :: system where
  "gate_s1 = \<lparr>sem = 5, tasks =
     [\<lparr>script = thread_script default_config noisy_env thread_x w0,
       holding = False, in_flight = False\<rparr>]\<rparr>"

definition gate_s2 :: system where
  "gate_s2 = \<lparr>sem = 4, tasks =
     [\<lparr>script = [Get (thread_url thread_x), Sleep AfterException 1 0,
                 Get (thread_url thread_x), Sleep AfterException 1 0,
                 Get (thread_url thread_x), Release],
       holding = True, in_flight = False\<rparr>]\<rparr>"

definition gate_s3 :: system where
  "gate_s3 = \<lparr>sem = 4, tasks =
     [\<lparr>script = [Sleep AfterException 1 0,
                 Get (thread_url thread_x), Sleep AfterException 1 0,
                 Get (thread_url thread_x), Release],
       holding = True, in_flight = True\<rparr>]\<rparr>"

text \<open>
  Two servers: one answers 503, then the connection fails, then it answers 200; the other
  always answers 503. Every random draw is a quarter of a second.
\<close>

definition flaky_env :: env where
  "flaky_env = \<lparr>http_get = (\<lambda>n url. if n = 0 then Response 503 [] else if n = 1 then Raised
        else Response 200 (u ''<html>'')),
     rnd = (\<lambda>n. 1 / 4), css_text = (\<lambda>html sel. []), pagination_links = (\<lambda>html. Some [])\<rparr>"

definition overloaded_env :: env where
  "overloaded_env = \<lparr>http_get = (\<lambda>n url. Response 503 []),
     rnd = (\<lambda>n. 1 / 4), css_text = (\<lambda>html sel. []), pagination_links = (\<lambda>html. Some [])\<rparr>"

text \<open>The two categories of the scorer's scenario, with weight one half each.\<close>

definition cat_A :: category where
  "cat_A = \<lparr>cat_name = u ''A'', weight = 0.5, positive_keywords = [u ''zysk''],
     negative_keywords = []\<rparr>"

definition cat_B :: category where
  "cat_B = \<lparr>cat_name = u ''B'', weight = 0.5, positive_keywords = [],
     negative_keywords = [u ''strata'']\<rparr>"

text \<open>
  A browser whose every \<open>driver.get\<close> raises, and two threads of a listing of the
  browser-driven pipeline.
\<close>

definition dead_browser :: browser where
  "dead_browser = (\<lambda>n url. None)"

definition two_threads_data :: "(str \<times> str) list" where
  "two_threads_data =
     [(u ''wzrost'', u ''https://www.bankier.pl/forum/temat_a,1.html''),
      (u ''spadek'', u ''https://www.bankier.pl/forum/temat_b,2.html'')]"

section \<open>Substring test and keyword counts\<close>

lemma startswith_iff: "startswith t k \<longleftrightarrow> (\<exists>b. t = k @ b)"
  by (induction t k rule: startswith.induct) auto

lemma str_in_iff: "str_in k t \<longleftrightarrow> (\<exists>a b. t = a @ k @ b)"
proof (induction t)
  case Nil
  show ?case by auto
next
  case (Cons c t)
  show ?case
  proof
    assume "str_in k (c # t)"
    then consider "startswith (c # t) k" | "str_in k t" by auto
    then show "\<exists>a b. c # t = a @ k @ b"
    proof cases
      case 1
      then obtain b where "c # t = k @ b" by (auto simp: startswith_iff)
      then have "c # t = [] @ k @ b" by simp
      then show ?thesis by blast
    next
      case 2
      then obtain a b where "t = a @ k @ b" using Cons.IH by blast
      then have "c # t = (c # a) @ k @ b" by simp
      then show ?thesis by blast
    qed
  next
    assume "\<exists>a b. c # t = a @ k @ b"
    then obtain a b where ab: "c # t = a @ k @ b" by blast
    show "str_in k (c # t)"
    proof (cases a)
      case Nil
      with ab have "startswith (c # t) k" by (auto simp: startswith_iff)
      then show ?thesis by simp
    next
      case (Cons x a')
      with ab have "t = a' @ k @ b" by simp
      then have "str_in k t" using Cons.IH by blast
      then show ?thesis by simp
    qed
  qed
qed

lemma count_present_filter:
  "count_present ks t = int (length (filter (\<lambda>k. str_in k t) ks))"
  by (induction ks) auto

lemma count_present_card:
  assumes "distinct ks"
  shows "count_present ks t = int (card {k \<in> set ks. \<exists>a b. t = a @ k @ b})"
proof -
  have "{k \<in> set ks. \<exists>a b. t = a @ k @ b} = {k. str_in k t} \<inter> set ks"
    by (auto simp: str_in_iff)
  then show ?thesis
    using assms by (simp add: count_present_filter distinct_length_filter)
qed

section \<open>Sentiment scorer\<close>

lemma sentiment_positive_keywords_distinct: "distinct sentiment_positive_keywords"
  by (simp add: sentiment_positive_keywords_def u_def)

lemma sentiment_negative_keywords_distinct: "distinct sentiment_negative_keywords"
  by (simp add: sentiment_negative_keywords_def u_def)

text \<open>
  C6 (as the code has it). With \<open>p\<close> and \<open>n\<close> the numbers of positive and of negative
  keywords that occur in the lower-cased text, \<open>analyze_sentiment\<close> returns the label
  POZYTYWNY when \<open>p > n\<close>, NEGATYWNY when \<open>n > p\<close> and NEUTRALNY otherwise, and as score the
  magnitude \<open>|p - n|\<close> of the difference: \<open>p - n\<close> for a positive text, \<open>n - p\<close> for a
  negative one, \<open>0\<close> for a neutral one. One positive and no negative keyword hence give
  POZYTYWNY with score 1, and equal counts give NEUTRALNY with score 0.
\<close>

theorem analyze_sentiment_magnitude:
  "(let p = int (card {k \<in> set sentiment_positive_keywords. \<exists>a b. lower text = a @ k @ b});
        n = int (card {k \<in> set sentiment_negative_keywords. \<exists>a b. lower text = a @ k @ b})
    in analyze_sentiment lower text =
       (if n < p then POZYTYWNY else if p < n then NEGATYWNY else NEUTRALNY, \<bar>p - n\<bar>))"
  by (simp add: analyze_sentiment_def Let_def
      count_present_card [OF sentiment_positive_keywords_distinct, symmetric]
      count_present_card [OF sentiment_negative_keywords_distinct, symmetric])

text \<open>
  C6 as stated, with the score always \<open>p - n\<close>, fails on a negative text: for
  \<open>spadek\<close> no positive and one negative keyword occur, so \<open>p - n = -1\<close>, and the
  returned score is \<open>1\<close>.
\<close>

theorem analyze_sentiment_negative_score_counterexample:
  "analyze_sentiment ascii_lower (u ''spadek'') = (NEGATYWNY, 1) \<and>
   count_present sentiment_positive_keywords (ascii_lower (u ''spadek''))
     - count_present sentiment_negative_keywords (ascii_lower (u ''spadek'')) = - 1"
  by (simp add: analyze_sentiment_def sentiment_positive_keywords_def
      sentiment_negative_keywords_def u_def ascii_lower_def)

section \<open>Fundamental scorer\<close>

lemma hits_count_present: "hits ks t = count_present ks t"
  by (simp add: hits_def count_present_filter str_in_iff)

lemma keyword_loop_count:
  "fst (keyword_loop sign name t ks (s, hl)) = s + hits ks t"
  unfolding hits_count_present by (induction ks arbitrary: s hl) auto

lemma dict_set_fresh: "k \<notin> fst ` set d \<Longrightarrow> dict_set k v d = d @ [(k, v)]"
  by (induction d) auto

lemma category_loop_scores:
  "distinct (map cat_name cats) \<Longrightarrow> fst ` set acc \<inter> set (map cat_name cats) = {} \<Longrightarrow>
   fst (category_loop t cats (acc, hl)) = acc @ map (\<lambda>c. (cat_name c, spec_category_score t c)) cats"
proof (induction cats arbitrary: acc hl)
  case Nil
  show ?case by simp
next
  case (Cons c cats)
  obtain p hl1 where p: "keyword_loop (u ''+'') (cat_name c) t (positive_keywords c) (0, hl) = (p, hl1)"
    by (cases "keyword_loop (u ''+'') (cat_name c) t (positive_keywords c) (0, hl)")
  obtain n hl2 where n: "keyword_loop (u ''-'') (cat_name c) t (negative_keywords c) (0, hl1) = (n, hl2)"
    by (cases "keyword_loop (u ''-'') (cat_name c) t (negative_keywords c) (0, hl1)")
  have pv: "p = hits (positive_keywords c) t"
    using keyword_loop_count [of "u ''+''" "cat_name c" t "positive_keywords c" 0 hl] p by simp
  have nv: "n = hits (negative_keywords c) t"
    using keyword_loop_count [of "u ''-''" "cat_name c" t "negative_keywords c" 0 hl1] n by simp
  have fresh: "cat_name c \<notin> fst ` set acc" using Cons.prems by auto
  let ?acc' = "acc @ [(cat_name c, spec_category_score t c)]"
  have disj: "fst ` set ?acc' \<inter> set (map cat_name cats) = {}"
    using Cons.prems by auto
  have d: "distinct (map cat_name cats)" using Cons.prems by simp
  have "fst (category_loop t (c # cats) (acc, hl)) = fst (category_loop t cats (?acc', hl2))"
    by (simp add: p n pv [symmetric] nv [symmetric] dict_set_fresh [OF fresh] spec_category_score_def
        Let_def)
  also have "\<dots> = ?acc' @ map (\<lambda>c. (cat_name c, spec_category_score t c)) cats"
    by (rule Cons.IH [OF d disj])
  finally show ?case by simp
qed

lemma analyze_fundamentals_nonempty:
  assumes "distinct (map cat_name cats)" and "text \<noteq> []"
  shows "categories (analyze_fundamentals sm cats lower text) =
           map (\<lambda>c. (cat_name c, spec_category_score (lower text) c)) cats"
    and "total_score (analyze_fundamentals sm cats lower text) =
           py_sum sm (map (\<lambda>c. weighted_score (spec_category_score (lower text) c)) cats)"
proof -
  obtain cs hl where r: "category_loop (lower text) cats ([], []) = (cs, hl)"
    by (cases "category_loop (lower text) cats ([], [])")
  have cs: "cs = map (\<lambda>c. (cat_name c, spec_category_score (lower text) c)) cats"
    using category_loop_scores [OF assms(1), of "[]" "lower text" "[]"] r by simp
  show "categories (analyze_fundamentals sm cats lower text) =
           map (\<lambda>c. (cat_name c, spec_category_score (lower text) c)) cats"
    using assms(2) by (simp add: analyze_fundamentals_def r cs)
  show "total_score (analyze_fundamentals sm cats lower text) =
           py_sum sm (map (\<lambda>c. weighted_score (spec_category_score (lower text) c)) cats)"
    using assms(2) by (simp add: analyze_fundamentals_def r cs comp_def)
qed

lemmas category_defs = FUNDAMENTAL_CATEGORIES_def EARNINGS_def OUTLOOK_def STRATEGY_def
  CONTRACTS_def MARKET_POSITION_def RISKS_def

lemmas float_defs = fl_def exponent_def exponent_up.simps exponent_down.simps pow2_def
  round_half_even_def fadd_def fsub_def fmul_def float_of_int_def py_sum_def Let_def

lemma fl_0: "fl 0 = 0"
  by (simp add: fl_def)

lemma fmul_0: "fmul (float_of_int 0) w = 0"
  by (simp add: fmul_def float_of_int_def fl_0)

lemma fl_half: "fl (1 / 2) = 1 / 2" "fl (- (1 / 2)) = - (1 / 2)" "fl 1 = 1" "fl (- 1) = - 1"
  by (simp_all add: float_defs)

lemma weights_as_fractions:
  "fl (25 / 100) = 1 / 4"
  "fl (20 / 100) = 3602879701896397 / 18014398509481984"
  "fl (15 / 100) = 5404319552844595 / 36028797018963968"
  "fl (10 / 100) = 3602879701896397 / 36028797018963968"
  by (simp_all add: float_defs)

lemma FUNDAMENTAL_CATEGORIES_distinct: "distinct (map cat_name FUNDAMENTAL_CATEGORIES)"
  by (simp add: category_defs u_def)

lemma FUNDAMENTAL_CATEGORIES_empty_text:
  "py_sum sm (map (\<lambda>c. weighted_score (spec_category_score [] c)) FUNDAMENTAL_CATEGORIES) = 0"
proof -
  have "map (\<lambda>c. weighted_score (spec_category_score [] c)) FUNDAMENTAL_CATEGORIES =
      [0, 0, 0, 0, 0, 0]"
    by (simp add: category_defs spec_category_score_def hits_count_present u_def fmul_0)
  then show ?thesis by (cases sm) (simp_all add: py_sum_def fadd_def fsub_def fl_0)
qed

lemma analyze_fundamentals_total:
  assumes "lower [] = []"
  shows "total_score (analyze_fundamentals sm FUNDAMENTAL_CATEGORIES lower text) =
           py_sum sm (map (\<lambda>c. weighted_score (spec_category_score (lower text) c))
             FUNDAMENTAL_CATEGORIES)"
proof (cases "text = []")
  case True
  then show ?thesis
    using assms FUNDAMENTAL_CATEGORIES_empty_text by (simp add: analyze_fundamentals_def)
next
  case False
  then show ?thesis
    by (rule analyze_fundamentals_nonempty(2) [OF FUNDAMENTAL_CATEGORIES_distinct])
qed

lemma get_fundamental_rating_bands:
  "(get_fundamental_rating s = VERY_BULLISH \<longleftrightarrow> 3 \<le> s) \<and>
   (get_fundamental_rating s = BULLISH \<longleftrightarrow> 1.5 \<le> s \<and> s < 3) \<and>
   (get_fundamental_rating s = SLIGHTLY_BULLISH \<longleftrightarrow> 0.5 \<le> s \<and> s < 1.5) \<and>
   (get_fundamental_rating s = NEUTRAL \<longleftrightarrow> - 0.5 < s \<and> s < 0.5) \<and>
   (get_fundamental_rating s = SLIGHTLY_BEARISH \<longleftrightarrow> - 1.5 < s \<and> s \<le> - 0.5) \<and>
   (get_fundamental_rating s = BEARISH \<longleftrightarrow> - 3 < s \<and> s \<le> - 1.5) \<and>
   (get_fundamental_rating s = VERY_BEARISH \<longleftrightarrow> s \<le> - 3)"
  by (auto simp: get_fundamental_rating_def)

lemma two_categories_cancel:
  assumes "cat_name A \<noteq> cat_name B" and "weight A = 0.5" and "weight B = 0.5" and "text \<noteq> []"
    and "hits (positive_keywords A) (lower text) = 1" and "hits (negative_keywords A) (lower text) = 0"
    and "hits (positive_keywords B) (lower text) = 0" and "hits (negative_keywords B) (lower text) = 1"
  shows "total_score (analyze_fundamentals sm [A, B] lower text) = 0"
proof -
  have d: "distinct (map cat_name [A, B])" using assms(1) by simp
  have w: "weight A = 1 / 2" "weight B = 1 / 2" using assms(2,3) by simp_all
  have a: "weighted_score (spec_category_score (lower text) A) = 1 / 2"
    unfolding spec_category_score_def assms(5,6) w by (simp add: fmul_def float_of_int_def fl_half)
  have b: "weighted_score (spec_category_score (lower text) B) = - (1 / 2)"
    unfolding spec_category_score_def assms(7,8) w by (simp add: fmul_def float_of_int_def fl_half)
  show ?thesis
    by (cases sm)
      (simp_all add: analyze_fundamentals_nonempty(2) [OF d assms(4)] a b py_sum_def fadd_def
        fsub_def fl_half fl_0)
qed

text \<open>
  The scorer at a band edge. The text has two hits of weight 0.25, one of weight 0.2 and
  one negative hit of weight 0.2; in exact arithmetic the total would be one half. Added
  from left to right the floats give the float just below one half and the label of the
  band below; with the compensated sum they give one half.
\<close>

lemma analyze_fundamentals_band_edge:
  "total_score (analyze_fundamentals Plain FUNDAMENTAL_CATEGORIES ascii_lower
      (u ''zysk netto lepszy wynik plan rozwoju likwidacja'')) =
     9007199254740991 / 18014398509481984"
  "get_fundamental_rating (total_score (analyze_fundamentals Plain FUNDAMENTAL_CATEGORIES ascii_lower
      (u ''zysk netto lepszy wynik plan rozwoju likwidacja''))) = NEUTRAL"
  by (simp_all add: analyze_fundamentals_def category_defs u_def ascii_lower_def float_defs
      get_fundamental_rating_def)

lemma analyze_fundamentals_band_edge_compensated:
  "total_score (analyze_fundamentals Compensated FUNDAMENTAL_CATEGORIES ascii_lower
      (u ''zysk netto lepszy wynik plan rozwoju likwidacja'')) = 1 / 2"
  "get_fundamental_rating (total_score (analyze_fundamentals Compensated FUNDAMENTAL_CATEGORIES
      ascii_lower (u ''zysk netto lepszy wynik plan rozwoju likwidacja''))) = SLIGHTLY_BULLISH"
  by (simp_all add: analyze_fundamentals_def category_defs u_def ascii_lower_def float_defs
      get_fundamental_rating_def)

text \<open>
  C7. For every text the scorer computes, for each of the six fixed categories, the
  positive and the negative hits as the number of the category's keywords that occur in
  the lower-cased text, the net score as their difference and the weighted score as the
  net score times the category's weight; the total is the sum of the weighted scores over
  the categories. Products and sum are those of Python floats: the net score is converted
  to a float and multiplied by the weight, and \<open>sum\<close> adds the weighted scores from left
  to right in the order of the categories, each result rounded to the nearest float
  (with the compensation term of the newer interpreters when \<open>sm\<close> is \<open>Compensated\<close>). For
  a non-empty text the returned per-category records hold exactly these values (on an
  empty text the total is 0 and there are no records). \<open>get_fundamental_rating\<close> assigns
  the seven labels by the bands \<open>\<ge> 3\<close>, \<open>\<ge> 1.5\<close>, \<open>\<ge> 0.5\<close>, \<open>> -0.5\<close>, \<open>> -1.5\<close>, \<open>> -3\<close>, else
  very bearish. With two categories of weight 0.5, one positive hit in the first and one
  negative hit in the second, the total is 0 and the label is NEUTRAL. The only fact used
  about \<open>str.lower\<close> is that it maps the empty text to itself.
\<close>

theorem analyze_fundamentals_weighted_total:
  assumes "lower [] = []"
  shows "total_score (analyze_fundamentals sm FUNDAMENTAL_CATEGORIES lower text) =
           py_sum sm (map (\<lambda>c. fmul (float_of_int (hits (positive_keywords c) (lower text) -
                                                  hits (negative_keywords c) (lower text)))
                                   (weight c))
             FUNDAMENTAL_CATEGORIES) \<and>
         (text \<noteq> [] \<longrightarrow>
            categories (analyze_fundamentals sm FUNDAMENTAL_CATEGORIES lower text) =
              map (\<lambda>c. (cat_name c,
                    \<lparr>net_score = hits (positive_keywords c) (lower text) -
                                 hits (negative_keywords c) (lower text),
                     weighted_score =
                       fmul (float_of_int (hits (positive_keywords c) (lower text) -
                                           hits (negative_keywords c) (lower text)))
                         (weight c),
                     positive_count = hits (positive_keywords c) (lower text),
                     negative_count = hits (negative_keywords c) (lower text)\<rparr>))
                FUNDAMENTAL_CATEGORIES) \<and>
         ((get_fundamental_rating s = VERY_BULLISH \<longleftrightarrow> 3 \<le> s) \<and>
          (get_fundamental_rating s = BULLISH \<longleftrightarrow> 1.5 \<le> s \<and> s < 3) \<and>
          (get_fundamental_rating s = SLIGHTLY_BULLISH \<longleftrightarrow> 0.5 \<le> s \<and> s < 1.5) \<and>
          (get_fundamental_rating s = NEUTRAL \<longleftrightarrow> - 0.5 < s \<and> s < 0.5) \<and>
          (get_fundamental_rating s = SLIGHTLY_BEARISH \<longleftrightarrow> - 1.5 < s \<and> s \<le> - 0.5) \<and>
          (get_fundamental_rating s = BEARISH \<longleftrightarrow> - 3 < s \<and> s \<le> - 1.5) \<and>
          (get_fundamental_rating s = VERY_BEARISH \<longleftrightarrow> s \<le> - 3)) \<and>
         (cat_name A \<noteq> cat_name B \<and> weight A = 0.5 \<and> weight B = 0.5 \<and> text2 \<noteq> [] \<and>
          hits (positive_keywords A) (lower text2) = 1 \<and>
          hits (negative_keywords A) (lower text2) = 0 \<and>
          hits (positive_keywords B) (lower text2) = 0 \<and>
          hits (negative_keywords B) (lower text2) = 1 \<longrightarrow>
            total_score (analyze_fundamentals sm [A, B] lower text2) = 0 \<and>
            get_fundamental_rating (total_score (analyze_fundamentals sm [A, B] lower text2)) = NEUTRAL)"
proof -
  have total: "total_score (analyze_fundamentals sm FUNDAMENTAL_CATEGORIES lower text) =
      py_sum sm (map (\<lambda>c. fmul (float_of_int (hits (positive_keywords c) (lower text) -
                                             hits (negative_keywords c) (lower text)))
                              (weight c))
        FUNDAMENTAL_CATEGORIES)"
    using analyze_fundamentals_total [where lower = lower and sm = sm] assms
    by (simp add: spec_category_score_def)
  have records: "text \<noteq> [] \<longrightarrow>
      categories (analyze_fundamentals sm FUNDAMENTAL_CATEGORIES lower text) =
        map (\<lambda>c. (cat_name c,
              \<lparr>net_score = hits (positive_keywords c) (lower text) -
                           hits (negative_keywords c) (lower text),
               weighted_score =
                 fmul (float_of_int (hits (positive_keywords c) (lower text) -
                                     hits (negative_keywords c) (lower text)))
                   (weight c),
               positive_count = hits (positive_keywords c) (lower text),
               negative_count = hits (negative_keywords c) (lower text)\<rparr>))
          FUNDAMENTAL_CATEGORIES"
    using analyze_fundamentals_nonempty(1) [OF FUNDAMENTAL_CATEGORIES_distinct]
    by (simp add: spec_category_score_def)
  have scenario: "total_score (analyze_fundamentals sm [A, B] lower text2) = 0 \<and>
      get_fundamental_rating (total_score (analyze_fundamentals sm [A, B] lower text2)) = NEUTRAL"
    if "cat_name A \<noteq> cat_name B \<and> weight A = 0.5 \<and> weight B = 0.5 \<and> text2 \<noteq> [] \<and>
        hits (positive_keywords A) (lower text2) = 1 \<and>
        hits (negative_keywords A) (lower text2) = 0 \<and>
        hits (positive_keywords B) (lower text2) = 0 \<and>
        hits (negative_keywords B) (lower text2) = 1"
  proof -
    have z: "total_score (analyze_fundamentals sm [A, B] lower text2) = 0"
      using that two_categories_cancel [where A = A and B = B and lower = lower and sm = sm]
      by blast
    show ?thesis unfolding z by (simp add: get_fundamental_rating_def)
  qed
  show ?thesis
    using total records get_fundamental_rating_bands [of s] scenario by blast
qed

theorem analyze_fundamentals_weighted_total_witness:
  "ascii_lower [] = [] \<and> u ''Nowy kontrakt, ale problem'' \<noteq> [] \<and>
   total_score (analyze_fundamentals Plain FUNDAMENTAL_CATEGORIES ascii_lower
      (u ''Nowy kontrakt, ale problem'')) = 900719925474099 / 18014398509481984 \<and>
   map (\<lambda>(name, cs). (name, net_score cs))
     (categories (analyze_fundamentals Plain FUNDAMENTAL_CATEGORIES ascii_lower
        (u ''Nowy kontrakt, ale problem''))) =
     [(u ''EARNINGS'', 0), (u ''OUTLOOK'', 0), (u ''STRATEGY'', 0), (u ''CONTRACTS'', 1),
      (u ''MARKET_POSITION'', 0), (u ''RISKS'', - 1)] \<and>
   get_fundamental_rating (900719925474099 / 18014398509481984) = NEUTRAL \<and>
   cat_name cat_A \<noteq> cat_name cat_B \<and> weight cat_A = 0.5 \<and> weight cat_B = 0.5 \<and>
   u ''Zysk i strata'' \<noteq> [] \<and>
   hits (positive_keywords cat_A) (ascii_lower (u ''Zysk i strata'')) = 1 \<and>
   hits (negative_keywords cat_A) (ascii_lower (u ''Zysk i strata'')) = 0 \<and>
   hits (positive_keywords cat_B) (ascii_lower (u ''Zysk i strata'')) = 0 \<and>
   hits (negative_keywords cat_B) (ascii_lower (u ''Zysk i strata'')) = 1 \<and>
   total_score (analyze_fundamentals Plain [cat_A, cat_B] ascii_lower (u ''Zysk i strata'')) = 0 \<and>
   get_fundamental_rating
     (total_score (analyze_fundamentals Plain [cat_A, cat_B] ascii_lower (u ''Zysk i strata''))) = NEUTRAL"
  using analyze_fundamentals_weighted_total [where lower = ascii_lower and sm = Plain
      and s = "900719925474099 / 18014398509481984" and A = cat_A and B = cat_B
      and ?text2.0 = "u ''Zysk i strata''"]
  by (simp (no_asm) add: ascii_lower_def u_def category_defs analyze_fundamentals_def
      get_fundamental_rating_def cat_A_def cat_B_def hits_count_present float_defs)

section \<open>Fetcher\<close>

lemma events_upto_Suc: "events_upto cfg e url w (Suc j) = events_upto cfg e url w j @ attempt_events cfg e url w j"
  by (simp add: events_upto_def)

lemma sleeps_count:
  "\<forall>i<j. retryable (answers e url w i) \<Longrightarrow> j < max_retries cfg \<Longrightarrow>
   length (filter is_sleep (events_upto cfg e url w j)) = j"
proof (induction j)
  case 0
  show ?case by (simp add: events_upto_def)
next
  case (Suc j)
  have r: "retryable (answers e url w j)" using Suc.prems by simp
  have lt: "j < max_retries cfg - 1" using Suc.prems by simp
  have "length (filter is_sleep (attempt_events cfg e url w j)) = 1"
    using r lt by (auto simp: attempt_events_def retryable_def split: outcome.splits)
  moreover have "length (filter is_sleep (events_upto cfg e url w j)) = j"
    using Suc by simp
  ultimately show ?case by (simp add: events_upto_Suc)
qed

lemma takeWhile_upt_all:
  "\<forall>i<n. P i \<Longrightarrow> takeWhile P [0..<n] = [0..<n]"
  by (simp add: takeWhile_eq_all_conv)

lemma takeWhile_upt_stop:
  assumes "\<forall>i<j. P i" "\<not> P j" "j < n"
  shows "takeWhile P [0..<n] = [0..<j]"
proof -
  have split: "[0..<n] = [0..<j] @ j # [Suc j..<n]"
    using assms(3) by (metis less_imp_le_nat upt_add_eq_append upt_conv_Cons le0 le_add_diff_inverse)
  have "takeWhile P ([0..<j] @ j # [Suc j..<n]) = [0..<j] @ takeWhile P (j # [Suc j..<n])"
    by (rule takeWhile_append2) (use assms(1) in auto)
  also have "\<dots> = [0..<j]" using assms(2) by simp
  finally show ?thesis unfolding split .
qed

lemma attempts_made_stop:
  assumes "\<forall>i<j. retryable (answers e url w i)" "\<not> retryable (answers e url w j)" "j < max_retries cfg"
  shows "attempts_made cfg e url w = Suc j"
proof -
  have tw: "takeWhile (\<lambda>a. retryable (answers e url w a)) [0..<max_retries cfg] = [0..<j]"
    using assms by (intro takeWhile_upt_stop) auto
  show ?thesis unfolding attempts_made_def tw using assms(3) by simp
qed

lemma attempts_made_all:
  assumes "\<forall>i<max_retries cfg. retryable (answers e url w i)"
  shows "attempts_made cfg e url w = max_retries cfg"
proof -
  have tw: "takeWhile (\<lambda>a. retryable (answers e url w a)) [0..<max_retries cfg] = [0..<max_retries cfg]"
    using assms by (intro takeWhile_upt_all) auto
  show ?thesis unfolding attempts_made_def tw by simp
qed

lemma fetch_loop_from:
  assumes "j \<le> max_retries cfg" and "\<forall>i<j. retryable (answers e url w i)"
  shows "fetch_loop cfg e url [j..<max_retries cfg] (world_after cfg e url w j) =
         (fetch_result cfg e url w, world_after cfg e url w (attempts_made cfg e url w))"
  using assms
proof (induction j rule: inc_induct)
  case base
  then have n: "attempts_made cfg e url w = max_retries cfg"
    by (simp add: attempts_made_all)
  have "fetch_result cfg e url w = None"
  proof (cases "max_retries cfg")
    case 0
    then show ?thesis using n by (simp add: fetch_result_def)
  next
    case (Suc r)
    then have "retryable (answers e url w r)" using base by simp
    then show ?thesis using n Suc
      by (auto simp: fetch_result_def retryable_def split: outcome.splits)
  qed
  then show ?case using n by simp
next
  case (step j)
  let ?wj = "world_after cfg e url w j"
  have jlt: "j < max_retries cfg" using step by simp
  have gets: "gets ?wj = gets w + j" by (simp add: world_after_def)
  have draws: "draws ?wj = draws w + j"
    using sleeps_count [OF step.prems jlt] by (simp add: world_after_def)
  have upt: "[j..<max_retries cfg] = j # [Suc j..<max_retries cfg]"
    using jlt by (simp add: upt_conv_Cons)
  have ans: "http_get e (gets ?wj) url = answers e url w j"
    by (simp add: gets answers_def)
  show ?case
  proof (cases "answers e url w j")
    case (Response status_code body)
    show ?thesis
    proof (cases "status_code = 503")
      case True
      have r: "\<forall>i<Suc j. retryable (answers e url w i)"
        using step.prems Response True by (auto simp: less_Suc_eq retryable_def)
      have "do_sleep e Backoff503 (2 ^ j) (do_get url ?wj) = world_after cfg e url w (Suc j)"
        using Response True draws
        by (simp add: do_sleep_def do_get_def world_after_def events_upto_Suc attempt_events_def)
      then show ?thesis
        using step.IH [OF r] Response True by (simp add: upt ans)
    next
      case False
      have nr: "\<not> retryable (answers e url w j)"
        using Response False by (simp add: retryable_def)
      have n: "attempts_made cfg e url w = Suc j"
        by (rule attempts_made_stop [OF step.prems nr jlt])
      have "do_get url ?wj = world_after cfg e url w (Suc j)"
        using Response False by (simp add: do_get_def world_after_def events_upto_Suc attempt_events_def)
      then show ?thesis
        using Response False n by (simp add: upt ans fetch_result_def)
    qed
  next
    case Raised
    show ?thesis
    proof (cases "j < max_retries cfg - 1")
      case True
      have r: "\<forall>i<Suc j. retryable (answers e url w i)"
        using step.prems Raised by (auto simp: less_Suc_eq retryable_def)
      have "do_sleep e AfterException 1 (do_get url ?wj) = world_after cfg e url w (Suc j)"
        using Raised True draws
        by (simp add: do_sleep_def do_get_def world_after_def events_upto_Suc attempt_events_def)
      then show ?thesis
        using step.IH [OF r] Raised True by (simp add: upt ans)
    next
      case False
      then have last: "Suc j = max_retries cfg" using jlt by simp
      have r: "\<forall>i<max_retries cfg. retryable (answers e url w i)"
        using step.prems Raised last by (auto simp: less_Suc_eq retryable_def simp flip: last)
      have n: "attempts_made cfg e url w = Suc j"
        using attempts_made_all [OF r] last by simp
      have "do_get url ?wj = world_after cfg e url w (Suc j)"
        using Raised False by (simp add: do_get_def world_after_def events_upto_Suc attempt_events_def)
      then show ?thesis
        using Raised False n by (simp add: upt ans fetch_result_def)
    qed
  qed
qed


lemma backoff_delays_append: "backoff_delays (xs @ ys) = backoff_delays xs @ backoff_delays ys"
  by (induction xs rule: backoff_delays.induct) auto

lemma backoff_delays_attempt:
  "backoff_delays (attempt_events cfg e url w a) = (if is_503 (answers e url w a) then [2 ^ a] else [])"
  by (auto simp: attempt_events_def split: outcome.splits)

lemma backoff_delays_upto:
  "backoff_delays (events_upto cfg e url w n) = map (\<lambda>a. 2 ^ a) (filter (\<lambda>a. is_503 (answers e url w a)) [0..<n])"
  by (induction n) (auto simp: events_upto_def backoff_delays_append backoff_delays_attempt)

lemma sorted_powers_filter_upt: "sorted (map (\<lambda>a. (2::real) ^ a) (filter P [0..<n]))"
proof -
  have "sorted_wrt (\<le>) (filter P [0..<n])"
    using sorted_wrt_filter [OF sorted_upt] .
  then have "sorted_wrt (\<lambda>x y. (2::real) ^ x \<le> 2 ^ y) (filter P [0..<n])"
    by (rule sorted_wrt_mono_rel [rotated]) (simp add: power_increasing)
  then show ?thesis by (simp add: sorted_map)
qed

lemma sorted_backoff: "sorted (backoff_delays (events_upto cfg e url w n))"
  by (simp add: backoff_delays_upto sorted_powers_filter_upt)

lemma gets_upto: "length (filter is_get (events_upto cfg e url w n)) = n"
  by (induction n) (auto simp: events_upto_def attempt_events_def split: outcome.splits)

lemma attempts_made_le: "attempts_made cfg e url w \<le> max_retries cfg"
  by (simp add: attempts_made_def)

text \<open>
  C2. A fetch makes \<open>attempts_made\<close> attempts, at most the configured number, one GET
  each, and always returns: the body as soon as an attempt is answered 200; \<open>None\<close>
  as soon as an attempt is answered with a status other than 200 and 503, without a further
  attempt; after a 503 on attempt \<open>a\<close> it sleeps \<open>2 ^ a\<close> plus a random part and goes on;
  after an exception it sleeps \<open>1\<close> plus a random part and goes on, except on the last
  attempt, where it returns \<open>None\<close> at once; when the attempts are used up it returns
  \<open>None\<close>. The fixed parts of the sleeps after 503 answers are \<open>2 ^ a\<close> for the
  attempts \<open>a\<close> answered 503, in increasing order of \<open>a\<close>, hence non-decreasing.
\<close>

theorem fetch_page_contract:
  "fetch_page cfg e url w =
     (fetch_result cfg e url w, world_after cfg e url w (attempts_made cfg e url w)) \<and>
   attempts_made cfg e url w \<le> max_retries cfg \<and>
   length (filter is_get (events_upto cfg e url w (attempts_made cfg e url w))) =
     attempts_made cfg e url w \<and>
   backoff_delays (events_upto cfg e url w (attempts_made cfg e url w)) =
     map (\<lambda>a. 2 ^ a) (filter (\<lambda>a. is_503 (answers e url w a)) [0..<attempts_made cfg e url w]) \<and>
   sorted (backoff_delays (events_upto cfg e url w (attempts_made cfg e url w)))"
proof -
  have "world_after cfg e url w 0 = w" by (simp add: world_after_def events_upto_def)
  then have "fetch_page cfg e url w =
      (fetch_result cfg e url w, world_after cfg e url w (attempts_made cfg e url w))"
    using fetch_loop_from [of 0 cfg e url w] by (simp add: fetch_page_def)
  then show ?thesis
    using attempts_made_le [of cfg e url w] gets_upto [of cfg e url w "attempts_made cfg e url w"]
      sorted_backoff [of cfg e url w "attempts_made cfg e url w"]
      backoff_delays_upto [of cfg e url w "attempts_made cfg e url w"]
    by simp
qed

text \<open>
  The contract on the two servers of \<open>flaky_env\<close> and \<open>overloaded_env\<close>: a 503, an
  exception and a 200 give the body after three GETs, with a sleep of \<open>2 ^ 0\<close> and one of
  \<open>1\<close>, each plus the draw; three 503 answers give nothing after three GETs and sleeps of
  1, 2 and 4 plus the draw, the last sleep included.
\<close>

lemma fetch_page_flaky:
  "fetch_page default_config flaky_env (u ''x'') w0 =
     (Some (u ''<html>''),
      \<lparr>gets = 3, draws = 2,
        log = [Get (u ''x''), Sleep Backoff503 1 (1 / 4), Get (u ''x''),
               Sleep AfterException 1 (1 / 4), Get (u ''x'')]\<rparr>)"
  by (simp add: fetch_page_def default_config_def flaky_env_def w0_def do_get_def do_sleep_def
      upt_rec)

lemma fetch_page_overloaded:
  "fetch_page default_config overloaded_env (u ''x'') w0 =
     (None,
      \<lparr>gets = 3, draws = 3,
        log = [Get (u ''x''), Sleep Backoff503 1 (1 / 4), Get (u ''x''),
               Sleep Backoff503 2 (1 / 4), Get (u ''x''), Sleep Backoff503 4 (1 / 4)]\<rparr>)"
  by (simp add: fetch_page_def default_config_def overloaded_env_def w0_def do_get_def
      do_sleep_def upt_rec)

section \<open>Text extractor\<close>

lemma collapsed_sub_ws: "collapsed b (sub_ws b t)"
  by (induction t arbitrary: b) (auto simp: is_space_def)

lemma collapsed_weaken: "collapsed True t \<Longrightarrow> collapsed False t"
  by (cases t) auto

lemma sub_ws_collapsed: "collapsed b t \<Longrightarrow> sub_ws b t = t"
  by (induction t arbitrary: b) (auto split: if_splits)

lemma collapsed_append_right: "collapsed b (xs @ ys) \<Longrightarrow> collapsed False ys"
proof (induction xs arbitrary: b)
  case Nil
  then show ?case by (cases b) (auto intro: collapsed_weaken)
next
  case (Cons x xs)
  then show ?case by (auto split: if_splits)
qed

lemma collapsed_append_left: "collapsed b (xs @ ys) \<Longrightarrow> collapsed b xs"
  by (induction xs arbitrary: b) (auto split: if_splits)

lemma rstrip_prefix: "t = rev (dropWhile P (rev t)) @ rev (takeWhile P (rev t))"
proof -
  have "rev (dropWhile P (rev t)) @ rev (takeWhile P (rev t)) =
        rev (takeWhile P (rev t) @ dropWhile P (rev t))"
    by (simp only: rev_append)
  also have "\<dots> = rev (rev t)" by (simp only: takeWhile_dropWhile_id)
  also have "\<dots> = t" by simp
  finally show ?thesis by simp
qed

lemma collapsed_strip: assumes "collapsed False t" shows "collapsed False (strip t)"
proof -
  let ?d = "dropWhile is_space t"
  have "t = takeWhile is_space t @ ?d" by simp
  then have d: "collapsed False ?d" using assms collapsed_append_right by metis
  have "?d = strip t @ rev (takeWhile is_space (rev ?d))"
    unfolding strip_def by (rule rstrip_prefix)
  then show ?thesis using d collapsed_append_left by metis
qed

lemma dropWhile_id_prefix:
  assumes "d = r @ s" and "dropWhile P d = d"
  shows "dropWhile P r = r"
proof (cases r)
  case Nil
  then show ?thesis by simp
next
  case (Cons x xs)
  with assms have "d = x # (xs @ s)" by simp
  with assms(2) have "\<not> P x" by (metis dropWhile_eq_Cons_conv)
  then show ?thesis using Cons by simp
qed

lemma strip_idem: "strip (strip t) = strip t"
proof -
  let ?d = "dropWhile is_space t"
  let ?r = "rev (dropWhile is_space (rev ?d))"
  have pre: "?d = ?r @ rev (takeWhile is_space (rev ?d))" by (rule rstrip_prefix)
  have "dropWhile is_space ?d = ?d" by simp
  then have lead: "dropWhile is_space ?r = ?r" using pre dropWhile_id_prefix by metis
  have "strip ?r = rev (dropWhile is_space (rev ?r))"
    unfolding strip_def lead ..
  also have "\<dots> = ?r" by simp
  finally show ?thesis by (simp add: strip_def)
qed

lemma clean_idem: "clean (clean t) = clean t"
proof -
  have "collapsed False (strip (sub_ws False t))"
    by (rule collapsed_strip [OF collapsed_sub_ws])
  then have "sub_ws False (strip (sub_ws False t)) = strip (sub_ws False t)"
    by (rule sub_ws_collapsed)
  then show ?thesis by (simp add: clean_def strip_idem)
qed

lemma remdups_drop_earlier: "x \<in> set ys \<Longrightarrow> remdups (xs @ x # ys) = remdups (xs @ ys)"
  by (induction xs) auto

lemma first_seen_drop_later: "x \<in> set xs \<Longrightarrow> first_seen (xs @ x # ys) = first_seen (xs @ ys)"
  by (simp add: first_seen_def remdups_drop_earlier)

lemma dedup_loop_first_seen:
  "distinct unique \<Longrightarrow>
   dedup_loop ts (unique, set unique) =
     first_seen (unique @ filter (\<lambda>x. x \<noteq> []) (map clean ts))"
proof (induction ts arbitrary: unique)
  case Nil
  then show ?case by (simp add: first_seen_def distinct_remdups_id)
next
  case (Cons t ts)
  show ?case
  proof (cases "clean t \<noteq> [] \<and> clean t \<notin> set unique")
    case True
    then have d: "distinct (unique @ [clean t])" using Cons.prems by simp
    have "dedup_loop (t # ts) (unique, set unique) =
          dedup_loop ts (unique @ [clean t], set (unique @ [clean t]))"
      using True by (simp add: Let_def)
    also have "\<dots> = first_seen ((unique @ [clean t]) @ filter (\<lambda>x. x \<noteq> []) (map clean ts))"
      by (rule Cons.IH [OF d])
    finally show ?thesis using True by simp
  next
    case False
    then have "dedup_loop (t # ts) (unique, set unique) = dedup_loop ts (unique, set unique)"
      by (auto simp: Let_def)
    also have "\<dots> = first_seen (unique @ filter (\<lambda>x. x \<noteq> []) (map clean ts))"
      by (rule Cons.IH [OF Cons.prems])
    finally show ?thesis using False by (auto simp: first_seen_drop_later)
  qed
qed

lemma distinct_first_seen: "distinct (first_seen xs)"
  by (simp add: first_seen_def)

lemma set_first_seen: "set (first_seen xs) = set xs"
  by (simp add: first_seen_def)

lemma extract_posts_from_html_eq:
  "extract_posts_from_html e html =
     first_seen (filter (\<lambda>x. x \<noteq> []) (map clean (filter (\<lambda>t. length t > 15) (matched_texts e html))))"
proof (cases "html = []")
  case True
  then show ?thesis by (simp add: extract_posts_from_html_def matched_texts_def first_seen_def)
next
  case False
  have "dedup_loop ts ([], {}) = first_seen (filter (\<lambda>x. x \<noteq> []) (map clean ts))" for ts
    using dedup_loop_first_seen [of "[]" ts] by simp
  then show ?thesis using False
    by (simp add: extract_posts_from_html_def matched_texts_def filter_concat comp_def)
qed

lemma extract_post_texts_from_thread_soup_eq:
  "extract_post_texts_from_thread_soup texts_of =
     first_seen (filter (\<lambda>x. x \<noteq> []) (map clean (filter (\<lambda>t. \<not> length t < 15)
        (concat (map texts_of soup_selectors)))))"
proof -
  have "dedup_loop ts ([], {}) = first_seen (filter (\<lambda>x. x \<noteq> []) (map clean ts))" for ts
    using dedup_loop_first_seen [of "[]" ts] by simp
  moreover have "(\<lambda>txt. txt \<noteq> [] \<and> \<not> length txt < 15) = (\<lambda>t::str. \<not> length t < 15)"
    by auto
  ultimately show ?thesis
    by (simp add: extract_post_texts_from_thread_soup_def filter_concat comp_def)
qed


lemmas noisy_env_simps = extract_posts_from_html_def noisy_env_def spaced_text_def selectors_def
  u_def clean_def strip_def is_space_def Let_def

text \<open>
  C10 (as the code has it). Both extractors discard every matched text shorter than 15
  characters and keep every matched text longer than 15 characters; the kept texts are
  whitespace-normalised (white space collapsed, ends trimmed), the empty results dropped,
  and the list deduplicated in first-seen order. So the returned entries are pairwise
  different, each is its own normalised form and none is empty; the length threshold
  applies to the matched text before normalisation, not to the returned entry. (Nothing
  is said here about a matched text of exactly 15 characters.)
\<close>

theorem extractors_normalise_and_deduplicate:
  "(\<exists>keep. (\<forall>t. length t < 15 \<longrightarrow> \<not> keep t) \<and> (\<forall>t. length t > 15 \<longrightarrow> keep t) \<and>
      extract_posts_from_html e html =
        first_seen (filter (\<lambda>x. x \<noteq> []) (map clean (filter keep (matched_texts e html))))) \<and>
   (\<exists>keep. (\<forall>t. length t < 15 \<longrightarrow> \<not> keep t) \<and> (\<forall>t. length t > 15 \<longrightarrow> keep t) \<and>
      extract_post_texts_from_thread_soup texts_of =
        first_seen (filter (\<lambda>x. x \<noteq> [])
          (map clean (filter keep (concat (map texts_of soup_selectors)))))) \<and>
   distinct (extract_posts_from_html e html) \<and>
   distinct (extract_post_texts_from_thread_soup texts_of) \<and>
   (\<forall>x \<in> set (extract_posts_from_html e html) \<union> set (extract_post_texts_from_thread_soup texts_of).
      clean x = x \<and> x \<noteq> [])"
proof -
  have a: "\<exists>keep. (\<forall>t. length t < 15 \<longrightarrow> \<not> keep t) \<and> (\<forall>t. length t > 15 \<longrightarrow> keep t) \<and>
      extract_posts_from_html e html =
        first_seen (filter (\<lambda>x. x \<noteq> []) (map clean (filter keep (matched_texts e html))))"
    by (rule exI [where x = "\<lambda>t. length t > 15"]) (simp add: extract_posts_from_html_eq)
  have b: "\<exists>keep. (\<forall>t. length t < 15 \<longrightarrow> \<not> keep t) \<and> (\<forall>t. length t > 15 \<longrightarrow> keep t) \<and>
      extract_post_texts_from_thread_soup texts_of =
        first_seen (filter (\<lambda>x. x \<noteq> [])
          (map clean (filter keep (concat (map texts_of soup_selectors)))))"
    by (rule exI [where x = "\<lambda>t. \<not> length t < 15"])
      (simp add: extract_post_texts_from_thread_soup_eq)
  have c: "distinct (extract_posts_from_html e html)"
    by (simp add: extract_posts_from_html_eq distinct_first_seen)
  have d: "distinct (extract_post_texts_from_thread_soup texts_of)"
    by (simp add: extract_post_texts_from_thread_soup_eq distinct_first_seen)
  have f: "clean x = x \<and> x \<noteq> []"
    if "x \<in> set (extract_posts_from_html e html) \<union> set (extract_post_texts_from_thread_soup texts_of)"
    for x
    using that
    by (auto simp: extract_posts_from_html_eq extract_post_texts_from_thread_soup_eq
        set_first_seen clean_idem)
  show ?thesis using a b c d f by blast
qed

theorem extractors_normalise_and_deduplicate_witness:
  "extract_posts_from_html noisy_env (u ''<html>'') = [u ''a b'', u ''to jest bardzo dobry wynik''] \<and>
   distinct (extract_posts_from_html noisy_env (u ''<html>'')) \<and>
   clean (u ''a b'') = u ''a b'' \<and> length (u ''Odpowiedz'') < 15 \<and> length spaced_text > 15"
  using extractors_normalise_and_deduplicate [of noisy_env "u ''<html>''" "\<lambda>sel. []"]
  by (simp (no_asm) add: noisy_env_simps)

text \<open>
  C10 as stated promises that no returned entry is shorter than the threshold. The page of
  \<open>noisy_env\<close> has a matched text of 17 characters, which passes the filter; its normalised
  form, the entry returned, has 3.
\<close>

theorem extract_posts_short_entry_counterexample:
  "hd (extract_posts_from_html noisy_env (u ''<html>'')) = u ''a b'' \<and>
   length (hd (extract_posts_from_html noisy_env (u ''<html>''))) < 15 \<and>
   length spaced_text = 17"
  by (simp add: noisy_env_simps)

section \<open>Browser-driven pipeline\<close>

text \<open>
  In this pipeline every thread text is cut to the cap, also when the crawl of the thread
  found nothing, and the posts of a thread never exceed the cap on posts, which is tested
  after every post.
\<close>

lemma browser_thread_text_bounded:
  "length (browser_thread_text cfg tytul thread_posts) \<le> max_thread_text_chars cfg"
  by (simp add: browser_thread_text_def Let_def)

lemma post_loop_bounded:
  "length posts < max_posts_per_thread cfg \<Longrightarrow>
   length (fst (post_loop cfg txts posts)) \<le> max_posts_per_thread cfg \<and>
   (\<not> snd (post_loop cfg txts posts) \<longrightarrow> length (fst (post_loop cfg txts posts)) < max_posts_per_thread cfg)"
proof (induction txts arbitrary: posts)
  case Nil
  then show ?case by simp
next
  case (Cons tx txts)
  define posts' where "posts' = (if tx \<notin> set posts then posts @ [tx] else posts)"
  have le: "length posts' \<le> max_posts_per_thread cfg"
    using Cons.prems by (simp add: posts'_def)
  show ?case
  proof (cases "length posts' \<ge> max_posts_per_thread cfg")
    case True
    then have "post_loop cfg (tx # txts) posts = (posts', True)"
      by (simp add: posts'_def Let_def)
    then show ?thesis using le by simp
  next
    case False
    then have "post_loop cfg (tx # txts) posts = post_loop cfg txts posts'"
      by (simp add: posts'_def Let_def)
    then show ?thesis using Cons.IH [of posts'] False by simp
  qed
qed

lemma browse_loop_bounded:
  "length posts < max_posts_per_thread cfg \<Longrightarrow>
   length (fst (browse_loop cfg b t_url pages current posts n)) \<le> max_posts_per_thread cfg"
proof (induction pages arbitrary: current posts n)
  case Nil
  then show ?case by simp
next
  case (Cons page_url rest)
  note pl = post_loop_bounded [OF Cons.prems]
  show ?case
  proof (cases "page_url \<noteq> t_url")
    case True
    show ?thesis
    proof (cases "b n page_url")
      case None
      then show ?thesis using True Cons.prems by simp
    next
      case (Some shown)
      obtain posts' stop where p:
        "post_loop cfg (extract_post_texts_from_thread_soup (select_text shown)) posts = (posts', stop)"
        by (cases "post_loop cfg (extract_post_texts_from_thread_soup (select_text shown)) posts")
      show ?thesis
      proof (cases stop)
        case True
        then show ?thesis
          using \<open>page_url \<noteq> t_url\<close> Some p pl [of "extract_post_texts_from_thread_soup (select_text shown)"]
          by simp
      next
        case False
        then have "length posts' < max_posts_per_thread cfg"
          using p pl [of "extract_post_texts_from_thread_soup (select_text shown)"] by simp
        then show ?thesis
          using \<open>page_url \<noteq> t_url\<close> Some p False Cons.IH [of posts' shown "n + 1"] by simp
      qed
    qed
  next
    case False
    obtain posts' stop where p:
      "post_loop cfg (extract_post_texts_from_thread_soup (select_text current)) posts = (posts', stop)"
      by (cases "post_loop cfg (extract_post_texts_from_thread_soup (select_text current)) posts")
    show ?thesis
    proof (cases stop)
      case True
      then show ?thesis
        using False p pl [of "extract_post_texts_from_thread_soup (select_text current)"] by simp
    next
      case nostop: False
      then have "length posts' < max_posts_per_thread cfg"
        using p pl [of "extract_post_texts_from_thread_soup (select_text current)"] by simp
      then show ?thesis
        using False p nostop Cons.IH [of posts' current n] by simp
    qed
  qed
qed

lemma scrape_thread_posts_bounded:
  "0 < max_posts_per_thread cfg \<Longrightarrow>
   length (fst (scrape_thread_posts cfg b t_url n)) \<le> max_posts_per_thread cfg"
  using browse_loop_bounded [of "[]" cfg]
  by (auto simp: scrape_thread_posts_def split: option.splits)

lemma browser_thread_texts_length: "length (browser_thread_texts cfg b items n) = length items"
  by (induction items arbitrary: n) (auto split: prod.splits)

lemma browser_thread_texts_bounded:
  "t \<in> set (browser_thread_texts cfg b items n) \<Longrightarrow> length t \<le> max_thread_text_chars cfg"
  by (induction items arbitrary: n) (auto simp: browser_thread_text_bounded split: prod.splits)

lemma sentiments_loop_labels:
  "fst (sentiments_loop cfg b lower items n) =
     map (\<lambda>t. fst (analyze_sentiment lower t)) (browser_thread_texts cfg b items n)"
proof (induction items arbitrary: n)
  case Nil
  show ?case by simp
next
  case (Cons item items)
  obtain tytul t_url where item: "item = (tytul, t_url)" by (cases item)
  obtain thread_posts n1 where s: "scrape_thread_posts cfg b t_url n = (thread_posts, n1)"
    by (cases "scrape_thread_posts cfg b t_url n")
  obtain label score where a:
    "analyze_sentiment lower (browser_thread_text cfg tytul thread_posts) = (label, score)"
    by (cases "analyze_sentiment lower (browser_thread_text cfg tytul thread_posts)")
  obtain labels n2 where l: "sentiments_loop cfg b lower items n1 = (labels, n2)"
    by (cases "sentiments_loop cfg b lower items n1")
  show ?case using Cons.IH [of n1] by (simp add: item s a l)
qed


text \<open>
  Here each thread's text is scored on its own and the company's counts are the numbers
  of threads with each label.
\<close>

lemma count_list_map:
  "count_list (map f xs) y = length (filter (\<lambda>x. f x = y) xs)"
  by (induction xs) auto

lemma company_sentiment_counts_labels:
  assumes "threads_data \<noteq> []"
  shows "\<exists>overall. company_sentiment cfg b lower company_name threads_data n =
        Some \<lparr>sr_company = company_name, sr_threads = length threads_data,
          sr_positive = length (filter (\<lambda>t. fst (analyze_sentiment lower t) = POZYTYWNY)
            (browser_thread_texts cfg b threads_data n)),
          sr_negative = length (filter (\<lambda>t. fst (analyze_sentiment lower t) = NEGATYWNY)
            (browser_thread_texts cfg b threads_data n)),
          sr_neutral = length (filter (\<lambda>t. fst (analyze_sentiment lower t) = NEUTRALNY)
            (browser_thread_texts cfg b threads_data n)),
          sr_overall = overall\<rparr>"
proof -
  obtain labels n1 where l: "sentiments_loop cfg b lower threads_data n = (labels, n1)"
    by (cases "sentiments_loop cfg b lower threads_data n")
  have labels: "labels = map (\<lambda>t. fst (analyze_sentiment lower t))
      (browser_thread_texts cfg b threads_data n)"
    using sentiments_loop_labels [of cfg b lower threads_data n] l by simp
  show ?thesis
    using assms
    by (simp add: company_sentiment_def l labels Let_def count_list_map
        browser_thread_texts_length)
qed

section \<open>Thread crawler\<close>

lemma process_thread_fetch_failed:
  assumes "fst (fetch_page cfg e (thread_url thr) (w\<lparr>log := log w @ [Acquire]\<rparr>)) = None"
  shows "process_thread cfg e thr w =
     ((title thr, []),
      (snd (fetch_page cfg e (thread_url thr) (w\<lparr>log := log w @ [Acquire]\<rparr>)))
        \<lparr>log := log (snd (fetch_page cfg e (thread_url thr) (w\<lparr>log := log w @ [Acquire]\<rparr>)))
                 @ [Release]\<rparr>)"
proof -
  obtain r w1 where f: "fetch_page cfg e (thread_url thr) (w\<lparr>log := log w @ [Acquire]\<rparr>) = (r, w1)"
    by (cases "fetch_page cfg e (thread_url thr) (w\<lparr>log := log w @ [Acquire]\<rparr>)")
  with assms have "r = None" by simp
  then show ?thesis by (simp add: process_thread_def f)
qed

lemma fetch_page_noisy_env:
  "fst (fetch_page default_config noisy_env url w) = None"
  by (simp add: fetch_page_def default_config_def noisy_env_def upt_rec)

text \<open>
  C9. When the fetch of the thread's first page returns nothing, \<open>process_thread\<close>
  returns exactly the thread's title, has gathered no posts, and does nothing after that
  fetch but give the semaphore back: no further page is requested.
\<close>

theorem process_thread_degrades_to_title:
  assumes "fst (fetch_page cfg e (thread_url thr) (w\<lparr>log := log w @ [Acquire]\<rparr>)) = None"
  shows "fst (process_thread cfg e thr w) = (title thr, []) \<and>
         snd (process_thread cfg e thr w) =
           (snd (fetch_page cfg e (thread_url thr) (w\<lparr>log := log w @ [Acquire]\<rparr>)))
             \<lparr>log := log (snd (fetch_page cfg e (thread_url thr) (w\<lparr>log := log w @ [Acquire]\<rparr>)))
                      @ [Release]\<rparr>"
  using process_thread_fetch_failed [OF assms] by simp

theorem process_thread_degrades_to_title_witness:
  "fst (fetch_page default_config noisy_env (thread_url thread_x) (w0\<lparr>log := log w0 @ [Acquire]\<rparr>)) = None \<and>
   fst (process_thread default_config noisy_env thread_x w0) = (u ''Wyniki kwartalne'', [])"
  using process_thread_degrades_to_title [of default_config noisy_env thread_x w0]
  by (simp (no_asm) add: process_thread_fetch_failed [OF fetch_page_noisy_env] fetch_page_noisy_env thread_x_def)

text \<open>
  C3 at its failing input: a thread whose title has 20001 characters and whose first page
  cannot be fetched. The early return hands the title back as it is, and the text is
  longer than \<open>MAX_THREAD_TEXT_CHARS = 20000\<close>.
\<close>

theorem process_thread_long_title_exceeds_cap:
  "fst (fst (process_thread default_config noisy_env long_title_thread w0)) = replicate 20001 97 \<and>
   length (fst (fst (process_thread default_config noisy_env long_title_thread w0))) = 20001 \<and>
   max_thread_text_chars default_config = 20000"
proof -
  have "fst (process_thread default_config noisy_env long_title_thread w0) =
      (title long_title_thread, [])"
    by (simp add: process_thread_fetch_failed [OF fetch_page_noisy_env])
  then show ?thesis by (simp add: long_title_thread_def default_config_def)
qed

text \<open>On the other way out of \<open>process_thread\<close> the text is cut to the cap.\<close>

lemma process_thread_text_bounded:
  assumes "fst (fetch_page cfg e (thread_url thr) (w\<lparr>log := log w @ [Acquire]\<rparr>)) = Some html"
    and "html \<noteq> []"
  shows "length (fst (fst (process_thread cfg e thr w))) \<le> max_thread_text_chars cfg"
proof -
  obtain r w1 where f: "fetch_page cfg e (thread_url thr) (w\<lparr>log := log w @ [Acquire]\<rparr>) = (r, w1)"
    by (cases "fetch_page cfg e (thread_url thr) (w\<lparr>log := log w @ [Acquire]\<rparr>)")
  with assms have "r = Some html" by simp
  then show ?thesis using assms(2)
    by (simp add: process_thread_def f Let_def split: prod.splits)
qed


lemma sub_ws_no_space: "\<forall>c\<in>set t. \<not> is_space c \<Longrightarrow> sub_ws b t = t"
  by (induction t arbitrary: b) auto

lemma dropWhile_none: "\<forall>c\<in>set xs. \<not> P c \<Longrightarrow> dropWhile P xs = xs"
  by (cases xs) auto

lemma clean_no_space:
  assumes "\<forall>c\<in>set t. \<not> is_space c"
  shows "clean t = t"
proof -
  have "dropWhile is_space t = t"
    using assms by (rule dropWhile_none)
  moreover have "dropWhile is_space (rev t) = rev t"
    by (rule dropWhile_none) (use assms in simp)
  ultimately show ?thesis
    using assms by (simp add: clean_def strip_def sub_ws_no_space)
qed

lemma first_seen_distinct: "distinct xs \<Longrightarrow> first_seen xs = xs"
  by (simp add: first_seen_def distinct_remdups_id)

lemma length_many_posts: "length (many_posts n) = n"
  by (simp add: many_posts_def)

lemma distinct_many_posts: "distinct (many_posts n)"
proof -
  have "inj_on (\<lambda>i. replicate 16 (97::nat) @ replicate i 98) (set [0..<n])"
  proof (rule inj_onI)
    fix i j assume "replicate 16 (97::nat) @ replicate i 98 = replicate 16 97 @ replicate j 98"
    then have "length (replicate 16 (97::nat) @ replicate i (98::nat)) =
               length (replicate 16 (97::nat) @ replicate j (98::nat))"
      by (rule arg_cong)
    then show "i = j" by simp
  qed
  then show ?thesis by (simp add: many_posts_def distinct_map)
qed

lemma many_posts_kept:
  "filter (\<lambda>x. x \<noteq> []) (map clean (filter (\<lambda>t. length t > 15) (many_posts n))) = many_posts n"
proof -
  have long: "filter (\<lambda>t. length t > 15) (many_posts n) = many_posts n"
    by (rule filter_True) (auto simp: many_posts_def)
  have "clean t = t" if "t \<in> set (many_posts n)" for t
    using that by (intro clean_no_space) (auto simp: many_posts_def is_space_def)
  then have cl: "map clean (many_posts n) = many_posts n"
    by (simp add: map_idI)
  have ne: "filter (\<lambda>x. x \<noteq> []) (many_posts n) = many_posts n"
    by (rule filter_True) (auto simp: many_posts_def)
  show ?thesis by (simp add: long cl ne)
qed

lemma extract_busy_env:
  "html \<noteq> [] \<Longrightarrow> extract_posts_from_html busy_env html = many_posts 51"
proof -
  assume "html \<noteq> []"
  then have "matched_texts busy_env html = many_posts 51"
    by (simp add: matched_texts_def busy_env_def selectors_def u_def)
  then show ?thesis
    by (simp add: extract_posts_from_html_eq many_posts_kept first_seen_distinct distinct_many_posts)
qed

lemma fetch_page_busy_env:
  "fetch_page default_config busy_env url w = (Some (u ''<html>''), do_get url w)"
  by (simp add: fetch_page_def default_config_def busy_env_def upt_rec)

lemma digit_value_ascii:
  "c < 0x660 \<Longrightarrow> digit_value c = (if 48 \<le> c \<and> c \<le> 57 then Some (c - 48) else None)"
  by (simp add: digit_value_def decimal_zeros_def)

lemma is_digit_ascii: "c < 0x660 \<Longrightarrow> is_digit c \<longleftrightarrow> 48 \<le> c \<and> c \<le> 57"
  by (simp add: is_digit_def digit_value_ascii)

lemmas page_simps = pages_to_fetch_def slice_to_def match_after_comma_def is_digit_ascii digit_value_ascii
  int_of_digits_def digits_value_def int_max_str_digits_def

lemma pages_to_fetch_busy:
  "pages_to_fetch default_config (thread_url thread_x)
     [u ''https://www.bankier.pl/forum/temat_x,1,2.html''] =
     Some [u ''https://www.bankier.pl/forum/temat_x,1,2.html'']"
  by (simp add: page_simps default_config_def thread_x_def u_def)

text \<open>
  C4 at its failing input: both pages of the thread hold 51 posts. After the first page
  the count, 51, is below \<open>MAX_POSTS_PER_THREAD = 100\<close>, so the second page is fetched
  and all its posts are appended: 102 posts are accumulated.
\<close>

theorem process_thread_posts_exceed_cap:
  "snd (fst (process_thread default_config busy_env thread_x w0)) = many_posts 51 @ many_posts 51 \<and>
   length (snd (fst (process_thread default_config busy_env thread_x w0))) = 102 \<and>
   max_posts_per_thread default_config = 100"
proof -
  have html: "u ''<html>'' \<noteq> []" by (simp add: u_def)
  have pl: "pagination_links busy_env (u ''<html>'') =
      Some [u ''https://www.bankier.pl/forum/temat_x,1,2.html'']"
    by (simp add: busy_env_def)
  have caps: "max_posts_per_thread default_config = 100" "max_pages_per_thread default_config = 5"
    by (simp_all add: default_config_def)
  have "snd (fst (process_thread default_config busy_env thread_x w0)) =
      many_posts 51 @ many_posts 51"
    by (simp add: process_thread_def fetch_page_busy_env html extract_busy_env pl caps
        pages_to_fetch_busy length_many_posts Let_def)
  then show ?thesis by (simp add: length_many_posts caps)
qed

text \<open>Once the cap on posts is reached no further page is fetched.\<close>

lemma page_loop_stops_at_cap:
  "max_posts_per_thread cfg \<le> length posts \<Longrightarrow> page_loop cfg e pages posts w = (posts, w)"
  by (cases pages) simp_all
lemma valid_pages_None:
  "valid_pages url links = None \<longleftrightarrow> \<not> list_all convertible (numbered_links url links)"
  by (induction links)
    (auto simp: numbered_links_def convertible_def int_of_digits_def split: option.splits)

lemma valid_pages_links:
  "valid_pages url links = Some vp \<Longrightarrow> map snd vp = numbered_links url links"
  by (induction links arbitrary: vp)
    (auto simp: numbered_links_def split: option.splits if_splits)

lemma valid_pages_number:
  "valid_pages url links = Some vp \<Longrightarrow> p \<in> set vp \<Longrightarrow> page_number (snd p) = fst p"
  by (induction links arbitrary: vp)
    (auto simp: page_number_def int_of_digits_def split: option.splits if_splits)

lemma insort_key_map_snd:
  "f (snd x) = fst x \<Longrightarrow> \<forall>y\<in>set xs. f (snd y) = fst y \<Longrightarrow>
   map snd (insort_key fst x xs) = insort_key f (snd x) (map snd xs)"
  by (induction xs) auto

lemma sort_key_map_snd:
  "\<forall>y\<in>set xs. f (snd y) = fst y \<Longrightarrow> map snd (sort_key fst xs) = sort_key f (map snd xs)"
proof (induction xs)
  case Nil
  show ?case by simp
next
  case (Cons x xs)
  then have "map snd (insort_key fst x (sort_key fst xs)) =
      insort_key f (snd x) (map snd (sort_key fst xs))"
    by (intro insort_key_map_snd) auto
  then show ?case using Cons by simp
qed

lemma slice_to_take: "0 < n \<Longrightarrow> slice_to (int n - 1) xs = take (n - 1) xs"
  by (simp add: slice_to_def nat_diff_distrib')

lemma pages_to_fetch_eq:
  assumes "list_all convertible (numbered_links url links)" and "0 < max_pages_per_thread cfg"
  shows "pages_to_fetch cfg url links = Some (selected_pages cfg url links)"
proof -
  obtain vp where vp: "valid_pages url links = Some vp"
    using assms valid_pages_None [of url links] by (cases "valid_pages url links") auto
  have s: "map snd (sort_key fst vp) = sort_key page_number (map snd vp)"
    by (rule sort_key_map_snd) (simp add: valid_pages_number [OF vp])
  have "pages_to_fetch cfg url links =
      Some (take (max_pages_per_thread cfg - 1) (map snd (sort_key fst vp)))"
    by (simp add: pages_to_fetch_def vp take_map slice_to_take [OF assms(2)])
  then show ?thesis
    by (simp only: s valid_pages_links [OF vp] selected_pages_def)
qed

lemma pages_to_fetch_None:
  "\<not> list_all convertible (numbered_links url links) \<Longrightarrow> pages_to_fetch cfg url links = None"
  using valid_pages_None [of url links] by (simp add: pages_to_fetch_def)

lemma selected_pages_sorted:
  "sorted (map page_number (selected_pages cfg url links))"
proof -
  have "sorted (map page_number (sort_key page_number (numbered_links url links)))"
    by (rule sorted_sort_key)
  then have "sorted (take (max_pages_per_thread cfg - 1)
      (map page_number (sort_key page_number (numbered_links url links))))"
    by (rule sorted_wrt_take)
  then show ?thesis by (simp only: selected_pages_def take_map)
qed

lemma selected_pages_length:
  "length (selected_pages cfg url links) =
     min (max_pages_per_thread cfg - 1) (length (numbered_links url links))"
  by (simp add: selected_pages_def min.commute)

lemma process_thread_pages:
  assumes "fetch_page cfg e (thread_url thr) (w\<lparr>log := log w @ [Acquire]\<rparr>) = (Some html, w1)"
    and "html \<noteq> []"
    and "length (extract_posts_from_html e html) < max_posts_per_thread cfg"
    and "max_pages_per_thread cfg > 1"
    and "pagination_links e html = Some links"
    and "pages_to_fetch cfg (thread_url thr) links = Some pages"
  shows "snd (fst (process_thread cfg e thr w)) =
     fst (page_loop cfg e pages (extract_posts_from_html e html) w1)"
  using assms by (simp add: process_thread_def Let_def split: prod.splits)

lemma process_thread_no_pages:
  assumes "fetch_page cfg e (thread_url thr) (w\<lparr>log := log w @ [Acquire]\<rparr>) = (Some html, w1)"
    and "html \<noteq> []"
    and "pagination_links e html = None \<or>
         (\<exists>links. pagination_links e html = Some links \<and>
            pages_to_fetch cfg (thread_url thr) links = None)"
  shows "process_thread cfg e thr w =
     ((take (max_thread_text_chars cfg)
         (strip (title thr @ [32] @ join_sp (extract_posts_from_html e html))),
       extract_posts_from_html e html),
      w1\<lparr>log := log w1 @ [Release]\<rparr>)"
  using assms by (auto simp: process_thread_def Let_def)

lemmas paged_simps = process_thread_def fetch_page_def cap3_config_def default_config_def
  paged_env_def thread_x_def w0_def do_get_def do_sleep_def upt_rec
  extract_posts_from_html_def selectors_def clean_def strip_def is_space_def Let_def
  page_simps u_def

lemma paged_selection:
  "pages_to_fetch cap3_config (u ''https://www.bankier.pl/forum/temat_x,1.html'')
      [u ''https://www.bankier.pl/forum/temat_x,1,2.html'',
       u ''https://www.bankier.pl/forum/temat_x,1,5.html'',
       u ''https://www.bankier.pl/forum/temat_x,1,3.html''] =
      Some [u ''https://www.bankier.pl/forum/temat_x,1,2.html'',
            u ''https://www.bankier.pl/forum/temat_x,1,3.html'']"
  by (simp add: paged_simps)

lemma paged_run:
  "get_urls (log (snd (process_thread cap3_config paged_env thread_x w0))) =
      [u ''https://www.bankier.pl/forum/temat_x,1.html'',
       u ''https://www.bankier.pl/forum/temat_x,1,2.html'',
       u ''https://www.bankier.pl/forum/temat_x,1,3.html'']"
  by (simp add: paged_simps)

lemma paged_numbers:
  "map page_number [u ''https://www.bankier.pl/forum/temat_x,1,2.html'',
       u ''https://www.bankier.pl/forum/temat_x,1,5.html'',
       u ''https://www.bankier.pl/forum/temat_x,1,3.html''] = [2, 5, 3]"
  by (simp add: page_number_def page_simps u_def)

lemma paged_convertible:
  "list_all convertible
     (numbered_links (u ''https://www.bankier.pl/forum/temat_x,1.html'')
        [u ''https://www.bankier.pl/forum/temat_x,1,2.html'',
         u ''https://www.bankier.pl/forum/temat_x,1,5.html'',
         u ''https://www.bankier.pl/forum/temat_x,1,3.html''])"
  by (simp add: numbered_links_def convertible_def page_simps u_def)

text \<open>A page index written with another script's digits is read like an ASCII one.\<close>

lemma arabic_link_number:
  "page_match arabic_link = Some [0x662]" "page_number arabic_link = 2"
  by (simp_all add: arabic_link_def page_number_def match_after_comma_def is_digit_def
      digit_value_def decimal_zeros_def digits_value_def u_def)

text \<open>
  The link with a page index of 4301 digits: the pattern matches it, \<open>int\<close> raises on
  it, and the crawl of a thread that has this link next to a link to page 2 fetches no
  second page.
\<close>

lemma takeWhile_replicate_append:
  "P x \<Longrightarrow> takeWhile P (replicate n x @ ys) = replicate n x @ takeWhile P ys"
  by (induction n) auto

lemma dropWhile_replicate_append:
  "P x \<Longrightarrow> dropWhile P (replicate n x @ ys) = dropWhile P ys"
  by (induction n) auto

lemma match_after_comma_overlong:
  "match_after_comma (replicate 4301 49 @ u ''.html'') = Some (replicate 4301 49)"
proof -
  have d: "is_digit 49" by (simp add: is_digit_ascii)
  have t: "takeWhile is_digit (u ''.html'') = []" "dropWhile is_digit (u ''.html'') = u ''.html''"
    by (simp_all add: u_def is_digit_ascii)
  have s: "startswith (u ''.html'') (u ''.html'')" by (simp add: startswith_iff)
  show ?thesis
    by (simp add: match_after_comma_def takeWhile_replicate_append [of is_digit 49, OF d]
        dropWhile_replicate_append [of is_digit 49, OF d] t s)
qed

lemma page_match_no_comma: "44 \<notin> set p \<Longrightarrow> page_match (p @ s) = page_match s"
  by (induction p) auto

lemma page_match_overlong: "page_match overlong_link = Some (replicate 4301 49)"
proof -
  have m: "match_after_comma (u ''1,'' @ replicate 4301 49 @ u ''.html'') = None"
    by (simp add: match_after_comma_def u_def is_digit_ascii)
  have "page_match overlong_link =
      page_match ([44] @ u ''1,'' @ replicate 4301 49 @ u ''.html'')"
    unfolding overlong_link_def
    using page_match_no_comma [of "u ''https://www.bankier.pl/forum/temat_x''"
        "[44] @ u ''1,'' @ replicate 4301 49 @ u ''.html''"]
    by (simp add: u_def)
  also have "\<dots> = page_match (u ''1,'' @ replicate 4301 49 @ u ''.html'')"
    using m by simp
  also have "\<dots> = page_match ([44] @ replicate 4301 49 @ u ''.html'')"
    by (simp add: u_def)
  also have "\<dots> = Some (replicate 4301 49)"
    using match_after_comma_overlong by simp
  finally show ?thesis .
qed

lemma overlong_link_facts:
  "overlong_link \<noteq> []" "overlong_link \<noteq> thread_url thread_x"
  "\<not> convertible overlong_link"
proof -
  show "overlong_link \<noteq> []" by (simp add: overlong_link_def u_def)
  have "length overlong_link = 4345" by (simp add: overlong_link_def u_def)
  moreover have "length (thread_url thread_x) = 43" by (simp add: thread_x_def u_def)
  ultimately show "overlong_link \<noteq> thread_url thread_x" by auto
  show "\<not> convertible overlong_link"
    by (simp add: convertible_def page_match_overlong int_max_str_digits_def)
qed

lemma overlong_numbered:
  "numbered_links (thread_url thread_x)
     [u ''https://www.bankier.pl/forum/temat_x,1,2.html'', overlong_link] =
     [u ''https://www.bankier.pl/forum/temat_x,1,2.html'', overlong_link]"
  "page_number (u ''https://www.bankier.pl/forum/temat_x,1,2.html'') = 2"
  "convertible (u ''https://www.bankier.pl/forum/temat_x,1,2.html'')"
proof -
  have p2: "page_match (u ''https://www.bankier.pl/forum/temat_x,1,2.html'') = Some [50]"
    by (simp add: page_simps u_def)
  have ne: "u ''https://www.bankier.pl/forum/temat_x,1,2.html'' \<noteq> thread_url thread_x"
    by (simp add: thread_x_def u_def)
  show "numbered_links (thread_url thread_x)
     [u ''https://www.bankier.pl/forum/temat_x,1,2.html'', overlong_link] =
     [u ''https://www.bankier.pl/forum/temat_x,1,2.html'', overlong_link]"
    using ne by (simp add: numbered_links_def p2 page_match_overlong overlong_link_facts) (simp add: u_def)
  show "page_number (u ''https://www.bankier.pl/forum/temat_x,1,2.html'') = 2"
    by (simp add: page_number_def p2 digits_value_def digit_value_ascii)
  show "convertible (u ''https://www.bankier.pl/forum/temat_x,1,2.html'')"
    by (simp add: convertible_def p2 int_max_str_digits_def)
qed

lemma overlong_fetch:
  "fetch_page cfg overlong_env (thread_url thread_x) (w0\<lparr>log := log w0 @ [Acquire]\<rparr>) =
     (if max_retries cfg = 0 then None else Some (u ''<html>''),
      if max_retries cfg = 0 then \<lparr>gets = 0, draws = 0, log = [Acquire]\<rparr>
      else \<lparr>gets = 1, draws = 0, log = [Acquire, Get (thread_url thread_x)]\<rparr>)"
  by (cases "max_retries cfg") (simp_all add: fetch_page_def overlong_env_def w0_def do_get_def upt_rec)

lemma overlong_run:
  assumes "0 < max_retries cfg"
  shows "get_urls (log (snd (process_thread cfg overlong_env thread_x w0))) = [thread_url thread_x]"
    and "snd (fst (process_thread cfg overlong_env thread_x w0)) = [u ''to jest bardzo dobry wynik'']"
proof -
  have f: "fetch_page cfg overlong_env (thread_url thread_x) (w0\<lparr>log := log w0 @ [Acquire]\<rparr>) =
      (Some (u ''<html>''), \<lparr>gets = 1, draws = 0, log = [Acquire, Get (thread_url thread_x)]\<rparr>)"
    using assms by (simp add: overlong_fetch)
  have ne: "u ''<html>'' \<noteq> []" by (simp add: u_def)
  have n: "\<not> list_all convertible (numbered_links (thread_url thread_x)
      [u ''https://www.bankier.pl/forum/temat_x,1,2.html'', overlong_link])"
    by (simp add: overlong_numbered(1) overlong_link_facts)
  have pl: "pagination_links overlong_env (u ''<html>'') = None \<or>
      (\<exists>links. pagination_links overlong_env (u ''<html>'') = Some links \<and>
         pages_to_fetch cfg (thread_url thread_x) links = None)"
    using pages_to_fetch_None [OF n, of cfg] by (simp add: overlong_env_def)
  have ex: "extract_posts_from_html overlong_env (u ''<html>'') = [u ''to jest bardzo dobry wynik'']"
    by (simp add: extract_posts_from_html_def overlong_env_def selectors_def clean_def strip_def
        is_space_def Let_def u_def)
  show "get_urls (log (snd (process_thread cfg overlong_env thread_x w0))) = [thread_url thread_x]"
    unfolding process_thread_no_pages [OF f ne pl] by simp
  show "snd (fst (process_thread cfg overlong_env thread_x w0)) = [u ''to jest bardzo dobry wynik'']"
    unfolding process_thread_no_pages [OF f ne pl] by (simp add: ex)
qed


lemma get_urls_append: "get_urls (a @ b) = get_urls a @ get_urls b"
  by (induction a rule: get_urls.induct) auto

lemma get_urls_attempt: "get_urls (attempt_events cfg e url w a) = [url]"
  by (auto simp: attempt_events_def split: outcome.splits)

lemma get_urls_upto: "get_urls (events_upto cfg e url w n) = replicate n url"
  by (induction n)
    (auto simp: events_upto_def get_urls_append get_urls_attempt replicate_append_same)

lemma fetch_page_world:
  "snd (fetch_page cfg e url w) = world_after cfg e url w (attempts_made cfg e url w)"
proof -
  have "world_after cfg e url w 0 = w" by (simp add: world_after_def events_upto_def)
  then show ?thesis
    using fetch_loop_from [of 0 cfg e url w] by (simp add: fetch_page_def)
qed

lemma fetch_page_get_urls:
  "get_urls (log (snd (fetch_page cfg e url w))) =
     get_urls (log w) @ replicate (attempts_made cfg e url w) url"
  by (simp add: fetch_page_world world_after_def get_urls_append get_urls_upto)

lemma page_loop_get_urls:
  "\<exists>ks. length ks \<le> length pages \<and>
     get_urls (log (snd (page_loop cfg e pages posts w))) =
       get_urls (log w) @ concat (map (\<lambda>(p, k). replicate k p) (zip pages ks))"
proof (induction pages arbitrary: posts w)
  case Nil
  show ?case by simp
next
  case (Cons p rest)
  show ?case
  proof (cases "length posts \<ge> max_posts_per_thread cfg")
    case True
    then have "get_urls (log (snd (page_loop cfg e (p # rest) posts w))) =
        get_urls (log w) @ concat (map (\<lambda>(p, k). replicate k p) (zip (p # rest) []))"
      by simp
    then show ?thesis by (metis le0 list.size(3))
  next
    case False
    obtain r w1 where f: "fetch_page cfg e p w = (r, w1)"
      by (cases "fetch_page cfg e p w")
    have g1: "get_urls (log w1) = get_urls (log w) @ replicate (attempts_made cfg e p w) p"
      using fetch_page_get_urls [of cfg e p w] f by simp
    define posts' where "posts' =
      (case r of Some h \<Rightarrow> if h \<noteq> [] then posts @ extract_posts_from_html e h else posts
       | None \<Rightarrow> posts)"
    define w2 where "w2 =
      (case r of Some h \<Rightarrow> if h \<noteq> [] then w1\<lparr>log := log w1 @ [Sleep BetweenPages 0.3 0]\<rparr> else w1
       | None \<Rightarrow> w1)"
    have step: "page_loop cfg e (p # rest) posts w = page_loop cfg e rest posts' w2"
      using False f by (auto simp: posts'_def w2_def split: option.splits)
    have g2: "get_urls (log w2) = get_urls (log w1)"
      by (auto simp: w2_def get_urls_append split: option.splits)
    obtain ks where ks: "length ks \<le> length rest"
      "get_urls (log (snd (page_loop cfg e rest posts' w2))) =
         get_urls (log w2) @ concat (map (\<lambda>(p, k). replicate k p) (zip rest ks))"
      using Cons.IH [of posts' w2] by blast
    have "length (attempts_made cfg e p w # ks) \<le> length (p # rest)"
      using ks(1) by simp
    moreover have "get_urls (log (snd (page_loop cfg e (p # rest) posts w))) =
        get_urls (log w) @
        concat (map (\<lambda>(p, k). replicate k p) (zip (p # rest) (attempts_made cfg e p w # ks)))"
      unfolding step by (simp add: ks(2) g2 g1)
    ultimately show ?thesis by blast
  qed
qed

lemma process_thread_get_urls:
  assumes "fetch_page cfg e (thread_url thr) (w\<lparr>log := log w @ [Acquire]\<rparr>) = (Some html, w1)"
    and "html \<noteq> []"
    and "pagination_links e html = Some links"
    and "list_all convertible (numbered_links (thread_url thr) links)"
  shows "\<exists>ks. length ks \<le> length (selected_pages cfg (thread_url thr) links) \<and>
     get_urls (log (snd (process_thread cfg e thr w))) =
       get_urls (log w1) @
       concat (map (\<lambda>(p, k). replicate k p) (zip (selected_pages cfg (thread_url thr) links) ks))"
proof (cases "length (extract_posts_from_html e html) < max_posts_per_thread cfg \<and>
    max_pages_per_thread cfg > 1")
  case True
  have "0 < max_pages_per_thread cfg" using True by simp
  note sel = pages_to_fetch_eq [OF assms(4) this]
  obtain ks where ks: "length ks \<le> length (selected_pages cfg (thread_url thr) links)"
    "get_urls (log (snd (page_loop cfg e (selected_pages cfg (thread_url thr) links)
        (extract_posts_from_html e html) w1))) =
      get_urls (log w1) @
      concat (map (\<lambda>(p, k). replicate k p) (zip (selected_pages cfg (thread_url thr) links) ks))"
    using page_loop_get_urls by blast
  have "get_urls (log (snd (process_thread cfg e thr w))) =
      get_urls (log (snd (page_loop cfg e (selected_pages cfg (thread_url thr) links)
        (extract_posts_from_html e html) w1)))"
    using assms(1-3) True
    by (simp add: process_thread_def sel Let_def get_urls_append split: prod.splits)
  then show ?thesis using ks by metis
next
  case False
  have "get_urls (log (snd (process_thread cfg e thr w))) = get_urls (log w1)"
    using assms(1-3) False
    by (auto simp: process_thread_def Let_def get_urls_append split: prod.splits)
  then have "get_urls (log (snd (process_thread cfg e thr w))) =
      get_urls (log w1) @
      concat (map (\<lambda>(p, k). replicate k p) (zip (selected_pages cfg (thread_url thr) links) []))"
    by simp
  then show ?thesis by (metis le0 list.size(3))
qed

lemma process_thread_aborted:
  assumes "fetch_page cfg e (thread_url thr) (w\<lparr>log := log w @ [Acquire]\<rparr>) = (Some html, w1)"
    and "html \<noteq> []"
    and "pagination_links e html = Some links"
    and "\<not> list_all convertible (numbered_links (thread_url thr) links)"
  shows "get_urls (log (snd (process_thread cfg e thr w))) = get_urls (log w1)"
    and "snd (fst (process_thread cfg e thr w)) = extract_posts_from_html e html"
proof -
  have pl: "pagination_links e html = None \<or>
      (\<exists>links. pagination_links e html = Some links \<and>
         pages_to_fetch cfg (thread_url thr) links = None)"
    using assms(3) pages_to_fetch_None [OF assms(4), of cfg] by simp
  show "get_urls (log (snd (process_thread cfg e thr w))) = get_urls (log w1)"
    unfolding process_thread_no_pages [OF assms(1,2) pl] by (simp add: get_urls_append)
  show "snd (fst (process_thread cfg e thr w)) = extract_posts_from_html e html"
    unfolding process_thread_no_pages [OF assms(1,2) pl] by simp
qed

text \<open>
  C8 as stated has the crawler keep the links with a parsable page index and fetch the
  first of them. The first page of the thread of \<open>overlong_env\<close> has one post and two
  pagination links: one to page 2, and one whose index is a run of 4301 digits. Both
  match the pattern, and page 2 is within the page cap of 5; but \<open>int\<close> raises on the long
  run, the \<open>except\<close> clause around the pagination block swallows the exception, and the
  only page requested is the first.
\<close>

theorem pagination_aborted_by_long_index_counterexample:
  "pagination_links overlong_env (u ''<html>'') =
     Some [u ''https://www.bankier.pl/forum/temat_x,1,2.html'', overlong_link] \<and>
   numbered_links (thread_url thread_x)
     [u ''https://www.bankier.pl/forum/temat_x,1,2.html'', overlong_link] =
     [u ''https://www.bankier.pl/forum/temat_x,1,2.html'', overlong_link] \<and>
   page_number (u ''https://www.bankier.pl/forum/temat_x,1,2.html'') = 2 \<and>
   max_pages_per_thread default_config = 5 \<and>
   snd (fst (process_thread default_config overlong_env thread_x w0)) =
     [u ''to jest bardzo dobry wynik''] \<and>
   get_urls (log (snd (process_thread default_config overlong_env thread_x w0))) =
     [thread_url thread_x]"
proof -
  have r: "0 < max_retries default_config" by (simp add: default_config_def)
  show ?thesis
    using overlong_run [OF r] overlong_numbered(1,2)
    by (simp add: overlong_env_def default_config_def)
qed

text \<open>
  C8 (as the code has it). Of the pagination links the crawler considers those that are
  not empty, are not the thread's own address and carry a page index that the pattern
  finds (decimal digits of any script). When \<open>int\<close> converts the index of every such
  link (none is longer than 4300 digits), the crawler sorts these links by page number,
  ascending, and selects the first (page cap - 1) of them; the selection is sorted by
  page number and has at most (page cap - 1) entries; and when the first page was
  fetched, the GETs of the crawl after those for the first page go to the selected pages
  in the order of the selection (each page as often as its fetch makes attempts), up to
  the page where the loop stops. When \<open>int\<close> raises on one of the links, nothing is
  selected: the crawl requests no further page and keeps the posts of the first page.
  With links to the pages 2, 5 and 3 and page cap 3 the selection is the links to the
  pages 2 and 3, and these are fetched in this order.
\<close>

theorem pagination_selects_sorted_prefix:
  "(list_all convertible (numbered_links url links) \<and> 0 < max_pages_per_thread cfg \<longrightarrow>
      pages_to_fetch cfg url links = Some (selected_pages cfg url links)) \<and>
   selected_pages cfg url links =
     take (max_pages_per_thread cfg - 1) (sort_key page_number (numbered_links url links)) \<and>
   sorted (map page_number (selected_pages cfg url links)) \<and>
   length (selected_pages cfg url links) \<le> max_pages_per_thread cfg - 1 \<and>
   (fetch_page cfg e (thread_url thr) (w\<lparr>log := log w @ [Acquire]\<rparr>) = (Some html, w1) \<and>
    html \<noteq> [] \<and> pagination_links e html = Some plinks \<and>
    list_all convertible (numbered_links (thread_url thr) plinks) \<longrightarrow>
      (\<exists>ks. length ks \<le> length (selected_pages cfg (thread_url thr) plinks) \<and>
         get_urls (log (snd (process_thread cfg e thr w))) =
           get_urls (log w1) @
           concat (map (\<lambda>(p, k). replicate k p)
             (zip (selected_pages cfg (thread_url thr) plinks) ks)))) \<and>
   (fetch_page cfg e2 (thread_url thr2) (w2\<lparr>log := log w2 @ [Acquire]\<rparr>) = (Some html2, w3) \<and>
    html2 \<noteq> [] \<and> pagination_links e2 html2 = Some blinks \<and>
    \<not> list_all convertible (numbered_links (thread_url thr2) blinks) \<longrightarrow>
      pages_to_fetch cfg (thread_url thr2) blinks = None \<and>
      get_urls (log (snd (process_thread cfg e2 thr2 w2))) = get_urls (log w3) \<and>
      snd (fst (process_thread cfg e2 thr2 w2)) = extract_posts_from_html e2 html2) \<and>
   map page_number
     [u ''https://www.bankier.pl/forum/temat_x,1,2.html'',
      u ''https://www.bankier.pl/forum/temat_x,1,5.html'',
      u ''https://www.bankier.pl/forum/temat_x,1,3.html''] = [2, 5, 3] \<and>
   pages_to_fetch cap3_config (u ''https://www.bankier.pl/forum/temat_x,1.html'')
     [u ''https://www.bankier.pl/forum/temat_x,1,2.html'',
      u ''https://www.bankier.pl/forum/temat_x,1,5.html'',
      u ''https://www.bankier.pl/forum/temat_x,1,3.html''] =
     Some [u ''https://www.bankier.pl/forum/temat_x,1,2.html'',
           u ''https://www.bankier.pl/forum/temat_x,1,3.html''] \<and>
   get_urls (log (snd (process_thread cap3_config paged_env thread_x w0))) =
     [u ''https://www.bankier.pl/forum/temat_x,1.html'',
      u ''https://www.bankier.pl/forum/temat_x,1,2.html'',
      u ''https://www.bankier.pl/forum/temat_x,1,3.html'']"
proof -
  have len: "length (selected_pages cfg url links) \<le> max_pages_per_thread cfg - 1"
    by (simp add: selected_pages_length)
  have sel: "list_all convertible (numbered_links url links) \<and> 0 < max_pages_per_thread cfg \<longrightarrow>
      pages_to_fetch cfg url links = Some (selected_pages cfg url links)"
    using pages_to_fetch_eq [of url links cfg] by blast
  have run: "fetch_page cfg e (thread_url thr) (w\<lparr>log := log w @ [Acquire]\<rparr>) = (Some html, w1) \<and>
      html \<noteq> [] \<and> pagination_links e html = Some plinks \<and>
      list_all convertible (numbered_links (thread_url thr) plinks) \<longrightarrow>
      (\<exists>ks. length ks \<le> length (selected_pages cfg (thread_url thr) plinks) \<and>
         get_urls (log (snd (process_thread cfg e thr w))) =
           get_urls (log w1) @
           concat (map (\<lambda>(p, k). replicate k p)
             (zip (selected_pages cfg (thread_url thr) plinks) ks)))"
    using process_thread_get_urls [of cfg e thr w html w1 plinks] by blast
  have abort: "fetch_page cfg e2 (thread_url thr2) (w2\<lparr>log := log w2 @ [Acquire]\<rparr>) = (Some html2, w3) \<and>
      html2 \<noteq> [] \<and> pagination_links e2 html2 = Some blinks \<and>
      \<not> list_all convertible (numbered_links (thread_url thr2) blinks) \<longrightarrow>
      pages_to_fetch cfg (thread_url thr2) blinks = None \<and>
      get_urls (log (snd (process_thread cfg e2 thr2 w2))) = get_urls (log w3) \<and>
      snd (fst (process_thread cfg e2 thr2 w2)) = extract_posts_from_html e2 html2"
    using process_thread_aborted [of cfg e2 thr2 w2 html2 w3 blinks]
      pages_to_fetch_None [of "thread_url thr2" blinks cfg] by blast
  show ?thesis
    using sel selected_pages_def [of cfg url links] selected_pages_sorted [of cfg url links] len
      run abort paged_numbers paged_selection paged_run
    by blast
qed

theorem pagination_selects_sorted_prefix_witness:
  "0 < max_pages_per_thread cap3_config \<and>
   list_all convertible (numbered_links (thread_url thread_x)
     [u ''https://www.bankier.pl/forum/temat_x,1,2.html'',
      u ''https://www.bankier.pl/forum/temat_x,1,5.html'',
      u ''https://www.bankier.pl/forum/temat_x,1,3.html'']) \<and>
   fetch_page cap3_config paged_env (thread_url thread_x) (w0\<lparr>log := log w0 @ [Acquire]\<rparr>) =
     (Some (u ''<html>''),
      \<lparr>gets = 1, draws = 0, log = [Acquire, Get (u ''https://www.bankier.pl/forum/temat_x,1.html'')]\<rparr>) \<and>
   u ''<html>'' \<noteq> [] \<and>
   pagination_links paged_env (u ''<html>'') =
     Some [u ''https://www.bankier.pl/forum/temat_x,1,2.html'',
           u ''https://www.bankier.pl/forum/temat_x,1,5.html'',
           u ''https://www.bankier.pl/forum/temat_x,1,3.html''] \<and>
   get_urls (log (snd (process_thread cap3_config paged_env thread_x w0))) =
     [u ''https://www.bankier.pl/forum/temat_x,1.html'',
      u ''https://www.bankier.pl/forum/temat_x,1,2.html'',
      u ''https://www.bankier.pl/forum/temat_x,1,3.html''] \<and>
   fetch_page cap3_config overlong_env (thread_url thread_x) (w0\<lparr>log := log w0 @ [Acquire]\<rparr>) =
     (Some (u ''<html>''),
      \<lparr>gets = 1, draws = 0, log = [Acquire, Get (thread_url thread_x)]\<rparr>) \<and>
   pagination_links overlong_env (u ''<html>'') =
     Some [u ''https://www.bankier.pl/forum/temat_x,1,2.html'', overlong_link] \<and>
   \<not> list_all convertible (numbered_links (thread_url thread_x)
       [u ''https://www.bankier.pl/forum/temat_x,1,2.html'', overlong_link]) \<and>
   get_urls (log (snd (process_thread cap3_config overlong_env thread_x w0))) =
     [thread_url thread_x]"
proof -
  have r: "0 < max_retries cap3_config" by (simp add: cap3_config_def default_config_def)
  have a: "fetch_page cap3_config overlong_env (thread_url thread_x) (w0\<lparr>log := log w0 @ [Acquire]\<rparr>) =
     (Some (u ''<html>''),
      \<lparr>gets = 1, draws = 0, log = [Acquire, Get (thread_url thread_x)]\<rparr>)"
    using r by (simp add: overlong_fetch)
  have b: "pagination_links overlong_env (u ''<html>'') =
     Some [u ''https://www.bankier.pl/forum/temat_x,1,2.html'', overlong_link]"
    by (simp add: overlong_env_def)
  have c: "\<not> list_all convertible (numbered_links (thread_url thread_x)
       [u ''https://www.bankier.pl/forum/temat_x,1,2.html'', overlong_link])"
    by (simp add: overlong_numbered(1) overlong_link_facts)
  have ne: "u ''<html>'' \<noteq> []" by (simp add: u_def)
  have d: "list_all convertible (numbered_links (thread_url thread_x)
     [u ''https://www.bankier.pl/forum/temat_x,1,2.html'',
      u ''https://www.bankier.pl/forum/temat_x,1,5.html'',
      u ''https://www.bankier.pl/forum/temat_x,1,3.html''])"
    using paged_convertible by (simp add: thread_x_def)
  have f: "fetch_page cap3_config paged_env (thread_url thread_x) (w0\<lparr>log := log w0 @ [Acquire]\<rparr>) =
     (Some (u ''<html>''),
      \<lparr>gets = 1, draws = 0, log = [Acquire, Get (u ''https://www.bankier.pl/forum/temat_x,1.html'')]\<rparr>)"
    by (simp add: fetch_page_def cap3_config_def default_config_def paged_env_def thread_x_def
        w0_def do_get_def upt_rec)
  have g: "pagination_links paged_env (u ''<html>'') =
     Some [u ''https://www.bankier.pl/forum/temat_x,1,2.html'',
           u ''https://www.bankier.pl/forum/temat_x,1,5.html'',
           u ''https://www.bankier.pl/forum/temat_x,1,3.html'']"
    by (simp add: paged_env_def)
  have w3: "get_urls (log \<lparr>gets = 1, draws = 0, log = [Acquire, Get (thread_url thread_x)]\<rparr>) =
      [thread_url thread_x]"
    by simp
  from pagination_selects_sorted_prefix [of "thread_url thread_x"
      "[u ''https://www.bankier.pl/forum/temat_x,1,2.html'',
        u ''https://www.bankier.pl/forum/temat_x,1,5.html'',
        u ''https://www.bankier.pl/forum/temat_x,1,3.html'']"
      cap3_config paged_env thread_x w0 "u ''<html>''"
      "\<lparr>gets = 1, draws = 0, log = [Acquire, Get (u ''https://www.bankier.pl/forum/temat_x,1.html'')]\<rparr>"
      "[u ''https://www.bankier.pl/forum/temat_x,1,2.html'',
        u ''https://www.bankier.pl/forum/temat_x,1,5.html'',
        u ''https://www.bankier.pl/forum/temat_x,1,3.html'']"
      overlong_env thread_x w0 "u ''<html>''"
      "\<lparr>gets = 1, draws = 0, log = [Acquire, Get (thread_url thread_x)]\<rparr>"
      "[u ''https://www.bankier.pl/forum/temat_x,1,2.html'', overlong_link]"]
  have run: "get_urls (log (snd (process_thread cap3_config paged_env thread_x w0))) =
     [u ''https://www.bankier.pl/forum/temat_x,1.html'',
      u ''https://www.bankier.pl/forum/temat_x,1,2.html'',
      u ''https://www.bankier.pl/forum/temat_x,1,3.html'']"
    and stop: "get_urls (log (snd (process_thread cap3_config overlong_env thread_x w0))) =
      get_urls (log \<lparr>gets = 1, draws = 0, log = [Acquire, Get (thread_url thread_x)]\<rparr>)"
    using a b c ne by blast+
  have cap: "0 < max_pages_per_thread cap3_config"
    by (simp add: cap3_config_def default_config_def)
  show ?thesis using a b c d f g ne run stop [unfolded w3] cap by blast
qed

section \<open>Company processor\<close>

lemma gather_threads_length: "length (gather_threads cfg te ts w) = length ts"
  by (simp add: gather_threads_def)

lemma gather_threads_nth:
  "i < length ts \<Longrightarrow>
   fst (gather_threads cfg te ts w ! i) = fst (fst (process_thread cfg (te i) (ts ! i) w))"
  by (simp add: gather_threads_def split: prod.splits)

lemma gather_threads_degraded:
  assumes "i < length ts"
    and "fst (fetch_page cfg (te i) (thread_url (ts ! i)) (w\<lparr>log := log w @ [Acquire]\<rparr>)) = None"
  shows "fst (gather_threads cfg te ts w ! i) = title (ts ! i)"
  using assms(1) process_thread_fetch_failed [OF assms(2)]
  by (simp add: gather_threads_nth)

lemma process_company_scores_joined_text:
  assumes "fetch_page cfg e url (w\<lparr>log := log w @ [Acquire]\<rparr>) = (Some html, w1)"
    and "html \<noteq> []" and "threads_to_scrape f html = Inr threads" and "threads \<noteq> []"
    and "map fst (gather_threads cfg te threads (w1\<lparr>log := log w1 @ [Release]\<rparr>)) = thread_texts"
  shows "fst (process_company sm cfg e te f lower name url w) =
     Inr (Some \<lparr>Spolka = name,
        Wynik = round2 (total_score
          (analyze_fundamentals sm FUNDAMENTAL_CATEGORIES lower (join_sp thread_texts))),
        Rating = get_fundamental_rating (total_score
          (analyze_fundamentals sm FUNDAMENTAL_CATEGORIES lower (join_sp thread_texts))),
        Watki = length threads,
        Highlights =
          (if highlights (analyze_fundamentals sm FUNDAMENTAL_CATEGORIES lower (join_sp thread_texts)) \<noteq> []
           then join_semicolon (take 3 (highlights
             (analyze_fundamentals sm FUNDAMENTAL_CATEGORIES lower (join_sp thread_texts))))
           else u ''Brak wykrytych sygna'' @ [0x142, 0xF3] @ u ''w'')\<rparr>)"
  using assms by (simp add: process_company_def fetch_listing_def Let_def)

text \<open>
  When \<open>urljoin\<close> raises on the address of a retained row, \<open>process_company\<close> is left with
  the exception, whatever the other rows are.
\<close>

lemma process_company_raises:
  assumes "fetch_page cfg e url (w\<lparr>log := log w @ [Acquire]\<rparr>) = (Some html, w1)"
    and "html \<noteq> []" and "threads_to_scrape f html = Inl err"
  shows "fst (process_company sm cfg e te f lower name url w) = Inl err"
  using assms by (simp add: process_company_def fetch_listing_def Let_def)

lemmas company_simps = process_company_def fetch_listing_def process_thread_def fetch_page_def default_config_def
  listing_env_def two_forum_def two_rows_def threads_to_scrape_def w0_def do_get_def do_sleep_def
  upt_rec Let_def u_def ascii_lower_def

lemma unscored_titles:
  "analyze_fundamentals Plain FUNDAMENTAL_CATEGORIES ascii_lower (u ''nowy'') =
     analyze_fundamentals Plain FUNDAMENTAL_CATEGORIES ascii_lower (u ''kontrakt'')"
  by (simp add: analyze_fundamentals_def category_defs u_def ascii_lower_def Let_def)

lemma round2_15:
  "round2 (5404319552844595 / 36028797018963968) = 5404319552844595 / 36028797018963968"
  by (simp add: round2_def float_defs)

lemma round2_0: "round2 0 = 0"
  by (simp add: round2_def round_half_even_def fl_0)

lemmas scorer_simps = analyze_fundamentals_def category_defs u_def ascii_lower_def Let_def

lemma nowy_kontrakt_total:
  "total_score (analyze_fundamentals Plain FUNDAMENTAL_CATEGORIES ascii_lower (u ''nowy kontrakt'')) =
     5404319552844595 / 36028797018963968"
proof -
  have "total_score (analyze_fundamentals Plain FUNDAMENTAL_CATEGORIES ascii_lower (u ''nowy kontrakt'')) =
      py_sum Plain [0, 0, 0, fmul (float_of_int 1) (fl (15 / 100)), 0, 0]"
    by (simp add: scorer_simps fmul_0)
  also have "\<dots> = 5404319552844595 / 36028797018963968"
    by (simp add: float_defs)
  finally show ?thesis .
qed

lemma nowy_kontrakt_highlights:
  "highlights (analyze_fundamentals Plain FUNDAMENTAL_CATEGORIES ascii_lower (u ''nowy kontrakt'')) =
     [u ''+CONTRACTS: nowy kontrakt'']"
  by (simp add: scorer_simps)

lemma nowy_nowy_total:
  "total_score (analyze_fundamentals Plain FUNDAMENTAL_CATEGORIES ascii_lower (u ''nowy nowy'')) = 0"
proof -
  have "total_score (analyze_fundamentals Plain FUNDAMENTAL_CATEGORIES ascii_lower (u ''nowy nowy'')) =
      py_sum Plain [0, 0, 0, 0, 0, 0]"
    by (simp add: scorer_simps fmul_0)
  also have "\<dots> = 0"
    by (simp add: py_sum_def fadd_def fl_0)
  finally show ?thesis .
qed

lemma nowy_nowy_highlights:
  "highlights (analyze_fundamentals Plain FUNDAMENTAL_CATEGORIES ascii_lower (u ''nowy nowy'')) = []"
  by (simp add: scorer_simps)

lemma listing_fetch:
  "fetch_page default_config listing_env url (w0\<lparr>log := log w0 @ [Acquire]\<rparr>) =
     (Some url, \<lparr>gets = 1, draws = 0, log = [Acquire, Get url]\<rparr>)"
  by (simp add: fetch_page_def default_config_def listing_env_def w0_def do_get_def upt_rec)

lemma thread_fetch_fails:
  "0 < gets w \<Longrightarrow> fst (fetch_page default_config listing_env url w) = None"
  by (simp add: fetch_page_def default_config_def listing_env_def do_get_def do_sleep_def upt_rec)

lemma listing_thread_title:
  assumes "0 < gets w"
  shows "fst (process_thread default_config listing_env thr w) = (title thr, [])"
proof -
  have f: "fst (fetch_page default_config listing_env (thread_url thr) (w\<lparr>log := log w @ [Acquire]\<rparr>)) = None"
    by (rule thread_fetch_fails) (use assms in simp)
  show ?thesis by (simp add: process_thread_fetch_failed [OF f])
qed

lemma listing_gather_titles:
  "0 < gets w \<Longrightarrow> map fst (gather_threads default_config (\<lambda>i. listing_env) ts w) = map title ts"
  by (rule nth_equalityI)
    (simp_all add: gather_threads_length gather_threads_nth listing_thread_title)

lemma threads_A:
  "threads_to_scrape two_forum (u ''A'') =
     Inr [\<lparr>title = u ''nowy'', thread_url = u ''https://www.bankier.pl/forum/temat_a,1.html''\<rparr>,
          \<lparr>title = u ''kontrakt'', thread_url = u ''https://www.bankier.pl/forum/temat_b,2.html''\<rparr>]"
  by (simp add: threads_to_scrape_def two_forum_def two_rows_def u_def)

lemma threads_B:
  "threads_to_scrape two_forum (u ''B'') =
     Inr [\<lparr>title = u ''nowy'', thread_url = u ''https://www.bankier.pl/forum/temat_a,1.html''\<rparr>,
          \<lparr>title = u ''nowy'', thread_url = u ''https://www.bankier.pl/forum/temat_b,2.html''\<rparr>]"
  by (simp add: threads_to_scrape_def two_forum_def two_rows_def u_def)

lemma threads_C: "threads_to_scrape two_forum (u ''C'') = Inl ValueError"
  by (simp add: threads_to_scrape_def two_forum_def two_rows_def broken_row_def u_def)

lemma process_company_raises_example:
  "fst (process_company Plain default_config listing_env (\<lambda>i. listing_env) two_forum ascii_lower
     (u ''Alfa'') (u ''C'') w0) = Inl ValueError"
proof -
  have ne: "u ''C'' \<noteq> []" by (simp add: u_def)
  show ?thesis by (rule process_company_raises [OF listing_fetch ne threads_C])
qed

lemma company_A:
  "fst (process_company Plain default_config listing_env (\<lambda>i. listing_env) two_forum ascii_lower
      name (u ''A'') w0) =
     Inr (Some \<lparr>Spolka = name, Wynik = 5404319552844595 / 36028797018963968,
       Rating = NEUTRAL, Watki = 2, Highlights = u ''+CONTRACTS: nowy kontrakt''\<rparr>)"
proof -
  have ne: "u ''A'' \<noteq> []" by (simp add: u_def)
  have g: "map fst (gather_threads default_config (\<lambda>i. listing_env)
      [\<lparr>title = u ''nowy'', thread_url = u ''https://www.bankier.pl/forum/temat_a,1.html''\<rparr>,
       \<lparr>title = u ''kontrakt'', thread_url = u ''https://www.bankier.pl/forum/temat_b,2.html''\<rparr>]
      (\<lparr>gets = 1, draws = 0, log = [Acquire, Get (u ''A'')]\<rparr>
         \<lparr>log := log \<lparr>gets = 1, draws = 0, log = [Acquire, Get (u ''A'')]\<rparr> @ [Release]\<rparr>)) =
      [u ''nowy'', u ''kontrakt'']"
    by (simp add: listing_gather_titles)
  have j: "join_sp [u ''nowy'', u ''kontrakt''] = u ''nowy kontrakt''" by (simp add: u_def)
  have neutral: "get_fundamental_rating (5404319552844595 / 36028797018963968) = NEUTRAL"
    by (simp add: get_fundamental_rating_def)
  have hl: "join_semicolon (take 3 [u ''+CONTRACTS: nowy kontrakt'']) = u ''+CONTRACTS: nowy kontrakt''"
    by simp
  have t: "[\<lparr>title = u ''nowy'', thread_url = u ''https://www.bankier.pl/forum/temat_a,1.html''\<rparr>,
       \<lparr>title = u ''kontrakt'', thread_url = u ''https://www.bankier.pl/forum/temat_b,2.html''\<rparr>] \<noteq> []"
    by simp
  show ?thesis
    unfolding process_company_scores_joined_text [OF listing_fetch ne threads_A t g] j
      nowy_kontrakt_total nowy_kontrakt_highlights round2_15 neutral hl
    by simp
qed

lemma company_B:
  "fst (process_company Plain default_config listing_env (\<lambda>i. listing_env) two_forum ascii_lower
      name (u ''B'') w0) =
     Inr (Some \<lparr>Spolka = name, Wynik = 0, Rating = NEUTRAL, Watki = 2,
       Highlights = u ''Brak wykrytych sygna'' @ [0x142, 0xF3] @ u ''w''\<rparr>)"
proof -
  have ne: "u ''B'' \<noteq> []" by (simp add: u_def)
  have g: "map fst (gather_threads default_config (\<lambda>i. listing_env)
      [\<lparr>title = u ''nowy'', thread_url = u ''https://www.bankier.pl/forum/temat_a,1.html''\<rparr>,
       \<lparr>title = u ''nowy'', thread_url = u ''https://www.bankier.pl/forum/temat_b,2.html''\<rparr>]
      (\<lparr>gets = 1, draws = 0, log = [Acquire, Get (u ''B'')]\<rparr>
         \<lparr>log := log \<lparr>gets = 1, draws = 0, log = [Acquire, Get (u ''B'')]\<rparr> @ [Release]\<rparr>)) =
      [u ''nowy'', u ''nowy'']"
    by (simp add: listing_gather_titles)
  have j: "join_sp [u ''nowy'', u ''nowy''] = u ''nowy nowy''" by (simp add: u_def)
  have neutral: "get_fundamental_rating 0 = NEUTRAL"
    by (simp add: get_fundamental_rating_def)
  have t: "[\<lparr>title = u ''nowy'', thread_url = u ''https://www.bankier.pl/forum/temat_a,1.html''\<rparr>,
       \<lparr>title = u ''nowy'', thread_url = u ''https://www.bankier.pl/forum/temat_b,2.html''\<rparr>] \<noteq> []"
    by simp
  show ?thesis
    unfolding process_company_scores_joined_text [OF listing_fetch ne threads_B t g] j
      nowy_nowy_total nowy_nowy_highlights round2_0 neutral
    by simp
qed

lemma dead_browser_texts:
  "browser_thread_texts browser_config dead_browser two_threads_data 0 = [u ''wzrost'', u ''spadek'']"
  by (simp add: two_threads_data_def scrape_thread_posts_def dead_browser_def
      browser_thread_text_def browser_config_def strip_def is_space_def u_def)

lemma dead_browser_labels:
  "fst (analyze_sentiment ascii_lower (u ''wzrost'')) = POZYTYWNY"
  "fst (analyze_sentiment ascii_lower (u ''spadek'')) = NEGATYWNY"
  by (simp_all add: analyze_sentiment_def sentiment_positive_keywords_def
      sentiment_negative_keywords_def ascii_lower_def u_def Let_def)

lemma dead_browser_company:
  "company_sentiment browser_config dead_browser ascii_lower (u ''Alfa'') two_threads_data 0 =
     Some \<lparr>sr_company = u ''Alfa'', sr_threads = 2, sr_positive = 1, sr_negative = 1,
       sr_neutral = 0, sr_overall = OVERALL_NEUTR\<rparr>"
proof -
  have l: "fst (sentiments_loop browser_config dead_browser ascii_lower two_threads_data 0) =
      [POZYTYWNY, NEGATYWNY]"
    by (simp only: sentiments_loop_labels dead_browser_texts list.map dead_browser_labels)
  obtain labels n1 where s:
    "sentiments_loop browser_config dead_browser ascii_lower two_threads_data 0 = (labels, n1)"
    by (cases "sentiments_loop browser_config dead_browser ascii_lower two_threads_data 0")
  have "labels = [POZYTYWNY, NEGATYWNY]" using l s by simp
  moreover have "two_threads_data \<noteq> []" by (simp add: two_threads_data_def)
  moreover have "fmul (float_of_int 1) 1.5 = 3 / 2" by (simp add: float_defs)
  ultimately show ?thesis
    by (simp add: company_sentiment_def s)
qed

text \<open>
  C5 as stated has the company result aggregated from per-thread scores. On the forum of
  \<open>listing_env\<close> the thread texts of the first company are \<open>nowy\<close> and \<open>kontrakt\<close> and
  those of the second are \<open>nowy\<close> and \<open>nowy\<close>. Scored one by one the four texts give the
  same analysis (no keyword occurs), so the two companies have the same per-thread
  scores; yet the first company's result has the total 0.15 and the highlight
  \<open>+CONTRACTS: nowy kontrakt\<close>, found across the two joined texts, and the second has
  total 0 and no highlight.
\<close>

theorem process_company_not_per_thread_counterexample:
  "map fst (gather_threads default_config (\<lambda>i. listing_env)
        [\<lparr>title = u ''nowy'', thread_url = u ''https://www.bankier.pl/forum/temat_a,1.html''\<rparr>,
         \<lparr>title = u ''kontrakt'', thread_url = u ''https://www.bankier.pl/forum/temat_b,2.html''\<rparr>]
        \<lparr>gets = 1, draws = 0, log = [Acquire, Get (u ''A''), Release]\<rparr>) = [u ''nowy'', u ''kontrakt''] \<and>
   map fst (gather_threads default_config (\<lambda>i. listing_env)
        [\<lparr>title = u ''nowy'', thread_url = u ''https://www.bankier.pl/forum/temat_a,1.html''\<rparr>,
         \<lparr>title = u ''nowy'', thread_url = u ''https://www.bankier.pl/forum/temat_b,2.html''\<rparr>]
        \<lparr>gets = 1, draws = 0, log = [Acquire, Get (u ''B''), Release]\<rparr>) = [u ''nowy'', u ''nowy''] \<and>
   map (analyze_fundamentals Plain FUNDAMENTAL_CATEGORIES ascii_lower) [u ''nowy'', u ''kontrakt''] =
     map (analyze_fundamentals Plain FUNDAMENTAL_CATEGORIES ascii_lower) [u ''nowy'', u ''nowy''] \<and>
   fst (process_company Plain default_config listing_env (\<lambda>i. listing_env) two_forum ascii_lower
      (u ''Alfa'') (u ''A'') w0) =
     Inr (Some \<lparr>Spolka = u ''Alfa'', Wynik = 5404319552844595 / 36028797018963968,
       Rating = NEUTRAL, Watki = 2, Highlights = u ''+CONTRACTS: nowy kontrakt''\<rparr>) \<and>
   fst (process_company Plain default_config listing_env (\<lambda>i. listing_env) two_forum ascii_lower
      (u ''Alfa'') (u ''B'') w0) =
     Inr (Some \<lparr>Spolka = u ''Alfa'', Wynik = 0, Rating = NEUTRAL, Watki = 2,
       Highlights = u ''Brak wykrytych sygna'' @ [0x142, 0xF3] @ u ''w''\<rparr>)"
proof -
  have c: "map (analyze_fundamentals Plain FUNDAMENTAL_CATEGORIES ascii_lower) [u ''nowy'', u ''kontrakt''] =
     map (analyze_fundamentals Plain FUNDAMENTAL_CATEGORIES ascii_lower) [u ''nowy'', u ''nowy'']"
    by (simp add: unscored_titles)
  show ?thesis
    using c company_A [of "u ''Alfa''"] company_B [of "u ''Alfa''"]
    by (simp add: listing_gather_titles)
qed

text \<open>
  C5 (as the code has it). In the asynchronous pipeline, for a company whose listing page
  was fetched and whose rows gave at least one retained thread, \<open>process_company\<close> runs
  one \<open>process_thread\<close> per retained thread and waits for all of them: it gets one text
  per thread, in the order of the threads, each the result of that thread's crawl, and
  the bare title when the crawl's first fetch failed. It then joins the texts with single
  spaces and scores the joined text once; the result is a company record with the rounded
  total, the rating of the total, the number of threads and up to three highlights. In
  the browser-driven pipeline the rollup of \<open>scrape_company_sentiment\<close> scores the text
  of each thread on its own and reports how many threads got each label.
\<close>

theorem process_company_joins_thread_texts:
  assumes "fetch_page cfg e url (w\<lparr>log := log w @ [Acquire]\<rparr>) = (Some html, w1)"
    and "html \<noteq> []" and "threads_to_scrape f html = Inr threads" and "threads \<noteq> []"
    and "threads_data \<noteq> []"
  shows "length (gather_threads cfg te threads (w1\<lparr>log := log w1 @ [Release]\<rparr>)) = length threads \<and>
     (\<forall>i < length threads.
        fst (gather_threads cfg te threads (w1\<lparr>log := log w1 @ [Release]\<rparr>) ! i) =
          fst (fst (process_thread cfg (te i) (threads ! i) (w1\<lparr>log := log w1 @ [Release]\<rparr>))) \<and>
        (fst (fetch_page cfg (te i) (thread_url (threads ! i))
               (w1\<lparr>log := log w1 @ [Release, Acquire]\<rparr>)) = None \<longrightarrow>
         fst (gather_threads cfg te threads (w1\<lparr>log := log w1 @ [Release]\<rparr>) ! i) =
           title (threads ! i))) \<and>
     (\<exists>thread_texts.
        thread_texts = map fst (gather_threads cfg te threads (w1\<lparr>log := log w1 @ [Release]\<rparr>)) \<and>
        fst (process_company sm cfg e te f lower name url w) =
          Inr (Some \<lparr>Spolka = name,
            Wynik = round2 (total_score
              (analyze_fundamentals sm FUNDAMENTAL_CATEGORIES lower (join_sp thread_texts))),
            Rating = get_fundamental_rating (total_score
              (analyze_fundamentals sm FUNDAMENTAL_CATEGORIES lower (join_sp thread_texts))),
            Watki = length threads,
            Highlights =
              (if highlights (analyze_fundamentals sm FUNDAMENTAL_CATEGORIES lower
                    (join_sp thread_texts)) \<noteq> []
               then join_semicolon (take 3 (highlights
                 (analyze_fundamentals sm FUNDAMENTAL_CATEGORIES lower (join_sp thread_texts))))
               else u ''Brak wykrytych sygna'' @ [0x142, 0xF3] @ u ''w'')\<rparr>)) \<and>
     (\<exists>overall. company_sentiment bcfg b blower company_name threads_data n =
        Some \<lparr>sr_company = company_name, sr_threads = length threads_data,
          sr_positive = length (filter (\<lambda>t. fst (analyze_sentiment blower t) = POZYTYWNY)
            (browser_thread_texts bcfg b threads_data n)),
          sr_negative = length (filter (\<lambda>t. fst (analyze_sentiment blower t) = NEGATYWNY)
            (browser_thread_texts bcfg b threads_data n)),
          sr_neutral = length (filter (\<lambda>t. fst (analyze_sentiment blower t) = NEUTRALNY)
            (browser_thread_texts bcfg b threads_data n)),
          sr_overall = overall\<rparr>)"
proof -
  let ?w2 = "w1\<lparr>log := log w1 @ [Release]\<rparr>"
  have len: "length (gather_threads cfg te threads ?w2) = length threads"
    by (rule gather_threads_length)
  have nth: "\<forall>i < length threads.
        fst (gather_threads cfg te threads ?w2 ! i) =
          fst (fst (process_thread cfg (te i) (threads ! i) ?w2)) \<and>
        (fst (fetch_page cfg (te i) (thread_url (threads ! i))
               (w1\<lparr>log := log w1 @ [Release, Acquire]\<rparr>)) = None \<longrightarrow>
         fst (gather_threads cfg te threads ?w2 ! i) = title (threads ! i))"
  proof (intro allI impI conjI)
    fix i assume i: "i < length threads"
    show "fst (gather_threads cfg te threads ?w2 ! i) =
        fst (fst (process_thread cfg (te i) (threads ! i) ?w2))"
      by (rule gather_threads_nth [OF i])
    assume "fst (fetch_page cfg (te i) (thread_url (threads ! i))
               (w1\<lparr>log := log w1 @ [Release, Acquire]\<rparr>)) = None"
    then have "fst (fetch_page cfg (te i) (thread_url (threads ! i))
               (?w2\<lparr>log := log ?w2 @ [Acquire]\<rparr>)) = None"
      by simp
    then show "fst (gather_threads cfg te threads ?w2 ! i) = title (threads ! i)"
      by (rule gather_threads_degraded [OF i])
  qed
  have res: "\<exists>thread_texts.
        thread_texts = map fst (gather_threads cfg te threads ?w2) \<and>
        fst (process_company sm cfg e te f lower name url w) =
          Inr (Some \<lparr>Spolka = name,
            Wynik = round2 (total_score
              (analyze_fundamentals sm FUNDAMENTAL_CATEGORIES lower (join_sp thread_texts))),
            Rating = get_fundamental_rating (total_score
              (analyze_fundamentals sm FUNDAMENTAL_CATEGORIES lower (join_sp thread_texts))),
            Watki = length threads,
            Highlights =
              (if highlights (analyze_fundamentals sm FUNDAMENTAL_CATEGORIES lower
                    (join_sp thread_texts)) \<noteq> []
               then join_semicolon (take 3 (highlights
                 (analyze_fundamentals sm FUNDAMENTAL_CATEGORIES lower (join_sp thread_texts))))
               else u ''Brak wykrytych sygna'' @ [0x142, 0xF3] @ u ''w'')\<rparr>)"
    using process_company_scores_joined_text [OF assms(1-4) refl] by blast
  show ?thesis
    using len nth res company_sentiment_counts_labels [OF assms(5)] by blast
qed

theorem process_company_joins_thread_texts_witness:
  "fetch_page default_config listing_env (u ''B'') (w0\<lparr>log := log w0 @ [Acquire]\<rparr>) =
     (Some (u ''B''), \<lparr>gets = 1, draws = 0, log = [Acquire, Get (u ''B'')]\<rparr>) \<and>
   u ''B'' \<noteq> [] \<and>
   threads_to_scrape two_forum (u ''B'') =
     Inr [\<lparr>title = u ''nowy'', thread_url = u ''https://www.bankier.pl/forum/temat_a,1.html''\<rparr>,
          \<lparr>title = u ''nowy'', thread_url = u ''https://www.bankier.pl/forum/temat_b,2.html''\<rparr>] \<and>
   two_threads_data \<noteq> [] \<and>
   length (gather_threads default_config (\<lambda>i. listing_env)
     [\<lparr>title = u ''nowy'', thread_url = u ''https://www.bankier.pl/forum/temat_a,1.html''\<rparr>,
      \<lparr>title = u ''nowy'', thread_url = u ''https://www.bankier.pl/forum/temat_b,2.html''\<rparr>]
     \<lparr>gets = 1, draws = 0, log = [Acquire, Get (u ''B''), Release]\<rparr>) = 2 \<and>
   fst (process_company Plain default_config listing_env (\<lambda>i. listing_env) two_forum ascii_lower
      (u ''Beta'') (u ''B'') w0) =
     Inr (Some \<lparr>Spolka = u ''Beta'', Wynik = 0, Rating = NEUTRAL, Watki = 2,
       Highlights = u ''Brak wykrytych sygna'' @ [0x142, 0xF3] @ u ''w''\<rparr>) \<and>
   company_sentiment browser_config dead_browser ascii_lower (u ''Alfa'') two_threads_data 0 =
     Some \<lparr>sr_company = u ''Alfa'', sr_threads = 2, sr_positive = 1, sr_negative = 1,
       sr_neutral = 0, sr_overall = OVERALL_NEUTR\<rparr>"
proof -
  have ne: "u ''B'' \<noteq> []" by (simp add: u_def)
  have t: "[\<lparr>title = u ''nowy'', thread_url = u ''https://www.bankier.pl/forum/temat_a,1.html''\<rparr>,
      \<lparr>title = u ''nowy'', thread_url = u ''https://www.bankier.pl/forum/temat_b,2.html''\<rparr>] \<noteq> []"
    by simp
  have d: "two_threads_data \<noteq> []" by (simp add: two_threads_data_def)
  from process_company_joins_thread_texts [OF listing_fetch ne threads_B t d,
      where te = "\<lambda>i. listing_env"]
  have len: "length (gather_threads default_config (\<lambda>i. listing_env)
     [\<lparr>title = u ''nowy'', thread_url = u ''https://www.bankier.pl/forum/temat_a,1.html''\<rparr>,
      \<lparr>title = u ''nowy'', thread_url = u ''https://www.bankier.pl/forum/temat_b,2.html''\<rparr>]
     (\<lparr>gets = 1, draws = 0, log = [Acquire, Get (u ''B'')]\<rparr>
        \<lparr>log := log \<lparr>gets = 1, draws = 0, log = [Acquire, Get (u ''B'')]\<rparr> @ [Release]\<rparr>)) =
      length [\<lparr>title = u ''nowy'', thread_url = u ''https://www.bankier.pl/forum/temat_a,1.html''\<rparr>,
      \<lparr>title = u ''nowy'', thread_url = u ''https://www.bankier.pl/forum/temat_b,2.html''\<rparr>]"
    by blast
  then have len2: "length (gather_threads default_config (\<lambda>i. listing_env)
     [\<lparr>title = u ''nowy'', thread_url = u ''https://www.bankier.pl/forum/temat_a,1.html''\<rparr>,
      \<lparr>title = u ''nowy'', thread_url = u ''https://www.bankier.pl/forum/temat_b,2.html''\<rparr>]
     \<lparr>gets = 1, draws = 0, log = [Acquire, Get (u ''B''), Release]\<rparr>) = 2"
    by simp
  show ?thesis
    using listing_fetch [of "u ''B''"] ne threads_B d len2 company_B [of "u ''Beta''"]
      dead_browser_company
    by blast
qed

section \<open>The concurrency gate\<close>

lemma quiet_attempt: "list_all quiet (attempt_events cfg e url w a)"
  by (auto simp: attempt_events_def split: outcome.splits)

lemma quiet_upto: "list_all quiet (events_upto cfg e url w n)"
  by (induction n) (auto simp: events_upto_def quiet_attempt)

lemma fetch_page_log:
  "\<exists>new. log (snd (fetch_page cfg e url w)) = log w @ new \<and> list_all quiet new"
  using quiet_upto [of cfg e url w "attempts_made cfg e url w"]
  by (auto simp: fetch_page_world world_after_def)

lemma page_loop_log:
  "\<exists>new. log (snd (page_loop cfg e pages posts w)) = log w @ new \<and> list_all quiet new"
proof (induction pages arbitrary: posts w)
  case Nil
  show ?case by simp
next
  case (Cons p rest)
  show ?case
  proof (cases "length posts \<ge> max_posts_per_thread cfg")
    case True
    then show ?thesis by simp
  next
    case False
    obtain r w1 where f: "fetch_page cfg e p w = (r, w1)"
      by (cases "fetch_page cfg e p w")
    obtain n1 where n1: "log w1 = log w @ n1" "list_all quiet n1"
      using fetch_page_log [of cfg e p w] f by auto
    define posts' where "posts' =
      (case r of Some h \<Rightarrow> if h \<noteq> [] then posts @ extract_posts_from_html e h else posts
       | None \<Rightarrow> posts)"
    define w2 where "w2 =
      (case r of Some h \<Rightarrow> if h \<noteq> [] then w1\<lparr>log := log w1 @ [Sleep BetweenPages 0.3 0]\<rparr> else w1
       | None \<Rightarrow> w1)"
    have step: "page_loop cfg e (p # rest) posts w = page_loop cfg e rest posts' w2"
      using False f by (auto simp: posts'_def w2_def split: option.splits)
    define extra where "extra =
      (case r of Some h \<Rightarrow> if h \<noteq> [] then [Sleep BetweenPages 0.3 0] else [] | None \<Rightarrow> [])"
    define n2 where "n2 = n1 @ extra"
    have n2: "log w2 = log w @ n2" "list_all quiet n2"
      using n1 by (auto simp: w2_def extra_def n2_def split: option.splits)
    obtain n3 where n3: "log (snd (page_loop cfg e rest posts' w2)) = log w2 @ n3" "list_all quiet n3"
      using Cons.IH [of posts' w2] by blast
    have "log (snd (page_loop cfg e (p # rest) posts w)) = log w @ (n2 @ n3)"
      unfolding step by (simp add: n3 n2)
    moreover have "list_all quiet (n2 @ n3)" using n2 n3 by simp
    ultimately show ?thesis by blast
  qed
qed

lemma company_script_bracketed:
  "\<exists>body. company_script cfg e url w = Acquire # body @ [Release] \<and> list_all quiet body"
proof -
  obtain r w1 where f: "fetch_page cfg e url (w\<lparr>log := log w @ [Acquire]\<rparr>) = (r, w1)"
    by (cases "fetch_page cfg e url (w\<lparr>log := log w @ [Acquire]\<rparr>)")
  obtain new where n: "log w1 = (log w @ [Acquire]) @ new" "list_all quiet new"
    using fetch_page_log [of cfg e url "w\<lparr>log := log w @ [Acquire]\<rparr>"] f by auto
  have "company_script cfg e url w = Acquire # new @ [Release]"
    by (simp add: company_script_def fetch_listing_def f n)
  then show ?thesis using n(2) by blast
qed

lemma thread_script_bracketed:
  "\<exists>body. thread_script cfg e thr w = Acquire # body @ [Release] \<and> list_all quiet body"
proof -
  obtain r w1 where f: "fetch_page cfg e (thread_url thr) (w\<lparr>log := log w @ [Acquire]\<rparr>) = (r, w1)"
    by (cases "fetch_page cfg e (thread_url thr) (w\<lparr>log := log w @ [Acquire]\<rparr>)")
  obtain n1 where n1: "log w1 = (log w @ [Acquire]) @ n1" "list_all quiet n1"
    using fetch_page_log [of cfg e "thread_url thr" "w\<lparr>log := log w @ [Acquire]\<rparr>"] f by auto
  have "\<exists>n2. log (snd (process_thread cfg e thr w)) = log w1 @ n2 @ [Release] \<and> list_all quiet n2"
  proof (cases r)
    case None
    then have "log (snd (process_thread cfg e thr w)) = log w1 @ [] @ [Release]"
      by (simp add: process_thread_def f)
    moreover have "list_all quiet ([] :: event list)" by simp
    ultimately show ?thesis by blast
  next
    case (Some html)
    show ?thesis
    proof (cases "html \<noteq> [] \<and> length (extract_posts_from_html e html) < max_posts_per_thread cfg \<and>
        max_pages_per_thread cfg > 1 \<and>
        (\<exists>links pages. pagination_links e html = Some links \<and>
           pages_to_fetch cfg (thread_url thr) links = Some pages)")
      case True
      then obtain links pages where l: "pagination_links e html = Some links"
        "pages_to_fetch cfg (thread_url thr) links = Some pages" by auto
      obtain n2 where n2: "log (snd (page_loop cfg e pages
          (extract_posts_from_html e html) w1)) = log w1 @ n2" "list_all quiet n2"
        using page_loop_log by blast
      have "log (snd (process_thread cfg e thr w)) = log w1 @ n2 @ [Release]"
        using True Some l n2(1)
        by (auto simp: process_thread_def f Let_def split: prod.splits)
      then show ?thesis using n2(2) by blast
    next
      case False
      then have "log (snd (process_thread cfg e thr w)) = log w1 @ [] @ [Release]"
        using Some by (auto simp: process_thread_def f Let_def split: prod.splits option.splits)
      moreover have "list_all quiet ([] :: event list)" by simp
    ultimately show ?thesis by blast
    qed
  qed
  then obtain n2 where n2: "log (snd (process_thread cfg e thr w)) = log w1 @ n2 @ [Release]"
    "list_all quiet n2" by blast
  have "thread_script cfg e thr w = Acquire # (n1 @ n2) @ [Release]"
    by (simp add: thread_script_def n2(1) n1(1))
  moreover have "list_all quiet (n1 @ n2)" using n1(2) n2(2) by simp
  ultimately show ?thesis by blast
qed


lemma filter_update_gain:
  "i < length xs \<Longrightarrow> \<not> P (xs ! i) \<Longrightarrow> P y \<Longrightarrow>
   length (filter P (xs[i := y])) = Suc (length (filter P xs))"
proof (induction xs arbitrary: i)
  case Nil
  then show ?case by simp
next
  case (Cons x xs)
  then show ?case by (cases i) auto
qed

lemma filter_update_loss:
  "i < length xs \<Longrightarrow> P (xs ! i) \<Longrightarrow> \<not> P y \<Longrightarrow>
   Suc (length (filter P (xs[i := y]))) = length (filter P xs)"
proof (induction xs arbitrary: i)
  case Nil
  then show ?case by simp
next
  case (Cons x xs)
  then show ?case by (cases i) auto
qed

lemma filter_update_same:
  "i < length xs \<Longrightarrow> P (xs ! i) = P y \<Longrightarrow>
   length (filter P (xs[i := y])) = length (filter P xs)"
proof (induction xs arbitrary: i)
  case Nil
  then show ?case by simp
next
  case (Cons x xs)
  then show ?case by (cases i) auto
qed

lemma list_all_update:
  "list_all P xs \<Longrightarrow> P y \<Longrightarrow> list_all P (xs[i := y])"
  by (auto simp: list_all_iff dest: set_update_subset_insert [THEN subsetD])

lemma filter_le_filter:
  "\<forall>x\<in>set xs. P x \<longrightarrow> Q x \<Longrightarrow> length (filter P xs) \<le> length (filter Q xs)"
  by (induction xs) auto

lemma task_ok_acquire:
  assumes "task_ok t" "script t = Acquire # rest"
  shows "\<not> holding t" and "task_ok (t\<lparr>script := rest, holding := True\<rparr>)"
proof -
  show nh: "\<not> holding t"
  proof
    assume "holding t"
    then obtain body where b: "script t = body @ [Release]" "list_all quiet body"
      using assms(1) by (auto simp: task_ok_def)
    then show False using assms(2) by (cases body) auto
  qed
  then obtain body where "script t = Acquire # body @ [Release]" "list_all quiet body"
    using assms by (auto simp: task_ok_def)
  then show "task_ok (t\<lparr>script := rest, holding := True\<rparr>)"
    using assms(2) by (auto simp: task_ok_def)
qed

lemma task_ok_quiet_step:
  assumes "task_ok t" "script t = ev # rest" "quiet ev"
  shows "holding t" and "task_ok (t\<lparr>script := rest\<rparr>)"
    and "task_ok (t\<lparr>script := rest, in_flight := True\<rparr>)"
proof -
  show h: "holding t"
  proof (rule ccontr)
    assume "\<not> holding t"
    then have "script t = [] \<or> (\<exists>body. script t = Acquire # body @ [Release])"
      using assms(1) by (auto simp: task_ok_def)
    then show False using assms(2,3) by auto
  qed
  then obtain body where b: "script t = body @ [Release]" "list_all quiet body"
    using assms(1) by (auto simp: task_ok_def)
  have "\<exists>body'. rest = body' @ [Release] \<and> list_all quiet body'"
  proof (cases body)
    case Nil
    then show ?thesis using b assms(2,3) by auto
  next
    case (Cons x body')
    then show ?thesis using b assms(2) by auto
  qed
  then show "task_ok (t\<lparr>script := rest\<rparr>)" and "task_ok (t\<lparr>script := rest, in_flight := True\<rparr>)"
    using h by (auto simp: task_ok_def)
qed

lemma task_ok_receive:
  assumes "task_ok t" "in_flight t"
  shows "task_ok (t\<lparr>in_flight := False\<rparr>)"
  using assms by (auto simp: task_ok_def split: if_splits)

lemma task_ok_release:
  assumes "task_ok t" "script t = Release # rest" "\<not> in_flight t"
  shows "holding t" and "task_ok (t\<lparr>script := rest, holding := False\<rparr>)"
proof -
  show h: "holding t"
  proof (rule ccontr)
    assume "\<not> holding t"
    then have "script t = [] \<or> (\<exists>body. script t = Acquire # body @ [Release])"
      using assms(1) by (auto simp: task_ok_def)
    then show False using assms(2) by auto
  qed
  then obtain body where b: "script t = body @ [Release]" "list_all quiet body"
    using assms(1) by (auto simp: task_ok_def)
  have "rest = []"
  proof (cases body)
    case Nil
    then show ?thesis using b assms(2) by simp
  next
    case (Cons x body')
    then have "x = Release" using b assms(2) by simp
    then show ?thesis using b(2) Cons by simp
  qed
  then show "task_ok (t\<lparr>script := rest, holding := False\<rparr>)"
    using assms(3) by (simp add: task_ok_def)
qed

lemma task_ok_in_flight: "task_ok t \<Longrightarrow> in_flight t \<Longrightarrow> holding t"
  by (auto simp: task_ok_def split: if_splits)

lemma gate_inv_initial: "gate_inv cfg (initial cfg)"
  by (simp add: gate_inv_def initial_def)

lemma gate_inv_step:
  assumes "gate_inv cfg s" and "step cfg s s'"
  shows "gate_inv cfg s'"
  using assms(2)
proof cases
  case (acquire i rest)
  have ok: "task_ok (tasks s ! i)"
    using assms(1) acquire(2) by (simp add: gate_inv_def list_all_length)
  note a = task_ok_acquire [OF ok acquire(3)]
  have "length (filter holding ((tasks s)[i := (tasks s ! i)\<lparr>script := rest, holding := True\<rparr>])) =
      Suc (length (filter holding (tasks s)))"
    using acquire(2) a(1) by (intro filter_update_gain) auto
  moreover have "list_all task_ok ((tasks s)[i := (tasks s ! i)\<lparr>script := rest, holding := True\<rparr>])"
    using assms(1) a(2) by (intro list_all_update) (auto simp: gate_inv_def)
  ultimately show ?thesis
    using assms(1) acquire(1,5) by (simp add: gate_inv_def)
next
  case (send i url rest)
  have ok: "task_ok (tasks s ! i)"
    using assms(1) send(2) by (simp add: gate_inv_def list_all_length)
  have q: "quiet (Get url)" by simp
  note a = task_ok_quiet_step [OF ok send(3) q]
  have "length (filter holding ((tasks s)[i := (tasks s ! i)\<lparr>script := rest, in_flight := True\<rparr>])) =
      length (filter holding (tasks s))"
    using send(2) by (intro filter_update_same) auto
  moreover have "list_all task_ok ((tasks s)[i := (tasks s ! i)\<lparr>script := rest, in_flight := True\<rparr>])"
    using assms(1) a(3) by (intro list_all_update) (auto simp: gate_inv_def)
  ultimately show ?thesis
    using assms(1) send(1) by (simp add: gate_inv_def)
next
  case (receive i)
  have ok: "task_ok (tasks s ! i)"
    using assms(1) receive(2) by (simp add: gate_inv_def list_all_length)
  have "length (filter holding ((tasks s)[i := (tasks s ! i)\<lparr>in_flight := False\<rparr>])) =
      length (filter holding (tasks s))"
    using receive(2) by (intro filter_update_same) auto
  moreover have "list_all task_ok ((tasks s)[i := (tasks s ! i)\<lparr>in_flight := False\<rparr>])"
    using assms(1) task_ok_receive [OF ok receive(3)]
    by (intro list_all_update) (auto simp: gate_inv_def)
  ultimately show ?thesis
    using assms(1) receive(1) by (simp add: gate_inv_def)
next
  case (sleep i kind fixed jitter rest)
  have ok: "task_ok (tasks s ! i)"
    using assms(1) sleep(2) by (simp add: gate_inv_def list_all_length)
  have q: "quiet (Sleep kind fixed jitter)" by simp
  note a = task_ok_quiet_step [OF ok sleep(3) q]
  have "length (filter holding ((tasks s)[i := (tasks s ! i)\<lparr>script := rest\<rparr>])) =
      length (filter holding (tasks s))"
    using sleep(2) by (intro filter_update_same) auto
  moreover have "list_all task_ok ((tasks s)[i := (tasks s ! i)\<lparr>script := rest\<rparr>])"
    using assms(1) a(2) by (intro list_all_update) (auto simp: gate_inv_def)
  ultimately show ?thesis
    using assms(1) sleep(1) by (simp add: gate_inv_def)
next
  case (release i rest)
  have ok: "task_ok (tasks s ! i)"
    using assms(1) release(2) by (simp add: gate_inv_def list_all_length)
  note a = task_ok_release [OF ok release(3,4)]
  have "Suc (length (filter holding ((tasks s)[i := (tasks s ! i)\<lparr>script := rest, holding := False\<rparr>]))) =
      length (filter holding (tasks s))"
    using release(2) a(1) by (intro filter_update_loss) auto
  moreover have "list_all task_ok ((tasks s)[i := (tasks s ! i)\<lparr>script := rest, holding := False\<rparr>])"
    using assms(1) a(2) by (intro list_all_update) (auto simp: gate_inv_def)
  ultimately show ?thesis
    using assms(1) release(1) by (simp add: gate_inv_def)
next
  case (spawn_company e url w)
  have "task_ok \<lparr>script = company_script cfg e url w, holding = False, in_flight = False\<rparr>"
    using company_script_bracketed [of cfg e url w] by (simp add: task_ok_def)
  then show ?thesis
    using assms(1) spawn_company(1) by (simp add: gate_inv_def)
next
  case (spawn_thread e thr w)
  have "task_ok \<lparr>script = thread_script cfg e thr w, holding = False, in_flight = False\<rparr>"
    using thread_script_bracketed [of cfg e thr w] by (simp add: task_ok_def)
  then show ?thesis
    using assms(1) spawn_thread(1) by (simp add: gate_inv_def)
qed

lemma reachable_gate_inv: "reachable cfg s \<Longrightarrow> gate_inv cfg s"
  by (induction rule: reachable.induct) (auto intro: gate_inv_initial gate_inv_step)

lemma gate_inv_bound:
  assumes "gate_inv cfg s"
  shows "length (filter in_flight (tasks s)) \<le> max_concurrent_requests cfg"
proof -
  have "\<forall>t\<in>set (tasks s). in_flight t \<longrightarrow> holding t"
    using assms by (auto simp: gate_inv_def list_all_iff intro: task_ok_in_flight)
  then have "length (filter in_flight (tasks s)) \<le> length (filter holding (tasks s))"
    by (rule filter_le_filter)
  then show ?thesis using assms by (simp add: gate_inv_def)
qed


lemma noisy_thread_script:
  "thread_script default_config noisy_env thread_x w0 =
     [Acquire, Get (thread_url thread_x), Sleep AfterException 1 0,
      Get (thread_url thread_x), Sleep AfterException 1 0,
      Get (thread_url thread_x), Release]"
  by (simp add: thread_script_def process_thread_def fetch_page_def default_config_def
      noisy_env_def w0_def do_get_def do_sleep_def upt_rec)

lemma reachable_gate_s3: "reachable default_config gate_s3"
proof -
  have r0: "reachable default_config (initial default_config)" by (rule reach_start)
  have "step default_config (initial default_config)
      ((initial default_config)\<lparr>tasks := tasks (initial default_config) @
        [\<lparr>script = thread_script default_config noisy_env thread_x w0,
          holding = False, in_flight = False\<rparr>]\<rparr>)"
    by (rule spawn_thread)
  moreover have "(initial default_config)\<lparr>tasks := tasks (initial default_config) @
        [\<lparr>script = thread_script default_config noisy_env thread_x w0,
          holding = False, in_flight = False\<rparr>]\<rparr> = gate_s1"
    by (simp add: initial_def default_config_def gate_s1_def)
  ultimately have r1: "reachable default_config gate_s1"
    using r0 by (auto intro: reach_step)
  have "step default_config gate_s1
      (gate_s1\<lparr>sem := sem gate_s1 - 1,
        tasks := (tasks gate_s1)[0 := (tasks gate_s1 ! 0)\<lparr>script :=
          [Get (thread_url thread_x), Sleep AfterException 1 0,
           Get (thread_url thread_x), Sleep AfterException 1 0,
           Get (thread_url thread_x), Release], holding := True\<rparr>]\<rparr>)"
    by (rule acquire) (simp_all add: gate_s1_def noisy_thread_script)
  moreover have "gate_s1\<lparr>sem := sem gate_s1 - 1,
        tasks := (tasks gate_s1)[0 := (tasks gate_s1 ! 0)\<lparr>script :=
          [Get (thread_url thread_x), Sleep AfterException 1 0,
           Get (thread_url thread_x), Sleep AfterException 1 0,
           Get (thread_url thread_x), Release], holding := True\<rparr>]\<rparr> = gate_s2"
    by (simp add: gate_s1_def gate_s2_def)
  ultimately have r2: "reachable default_config gate_s2"
    using r1 by (auto intro: reach_step)
  have "step default_config gate_s2
      (gate_s2\<lparr>tasks := (tasks gate_s2)[0 := (tasks gate_s2 ! 0)\<lparr>script :=
          [Sleep AfterException 1 0,
           Get (thread_url thread_x), Sleep AfterException 1 0,
           Get (thread_url thread_x), Release], in_flight := True\<rparr>]\<rparr>)"
    by (rule send [where url = "thread_url thread_x"]) (simp_all add: gate_s2_def)
  moreover have "gate_s2\<lparr>tasks := (tasks gate_s2)[0 := (tasks gate_s2 ! 0)\<lparr>script :=
          [Sleep AfterException 1 0,
           Get (thread_url thread_x), Sleep AfterException 1 0,
           Get (thread_url thread_x), Release], in_flight := True\<rparr>]\<rparr> = gate_s3"
    by (simp add: gate_s2_def gate_s3_def)
  ultimately show ?thesis
    using r2 by (auto intro: reach_step)
qed

text \<open>
  C1. In every state that the run of the event loop can reach, the number of tasks with an
  outstanding GET is at most the capacity \<open>MAX_CONCURRENT_REQUESTS\<close> (5 by default) of the
  one semaphore: a task with an outstanding GET holds the semaphore, and the value of the
  semaphore plus the number of holders is the capacity. Both kinds of task go through the
  same semaphore: the script of a company task and the script of a thread task each take
  it before their first GET and give it back after their last, and do nothing else to it.
\<close>

theorem gate_bounds_outstanding_fetches:
  assumes "reachable cfg s"
  shows "length (filter in_flight (tasks s)) \<le> max_concurrent_requests cfg \<and>
     list_all (\<lambda>t. \<not> in_flight t \<or> holding t) (tasks s) \<and>
     sem s + length (filter holding (tasks s)) = max_concurrent_requests cfg \<and>
     (\<exists>body. company_script cfg e url w = Acquire # body @ [Release] \<and> list_all quiet body) \<and>
     (\<exists>body. thread_script cfg e thr w' = Acquire # body @ [Release] \<and> list_all quiet body) \<and>
     max_concurrent_requests default_config = 5"
proof -
  have inv: "gate_inv cfg s" using assms by (rule reachable_gate_inv)
  have "list_all (\<lambda>t. \<not> in_flight t \<or> holding t) (tasks s)"
    using inv by (auto simp: gate_inv_def list_all_iff dest: task_ok_in_flight)
  moreover have "sem s + length (filter holding (tasks s)) = max_concurrent_requests cfg"
    using inv by (simp add: gate_inv_def)
  moreover have "max_concurrent_requests default_config = 5"
    by (simp add: default_config_def)
  ultimately show ?thesis
    using gate_inv_bound [OF inv] company_script_bracketed [of cfg e url w]
      thread_script_bracketed [of cfg e thr w']
    by blast
qed

theorem gate_bounds_outstanding_fetches_witness:
  "reachable default_config gate_s3 \<and>
   length (filter in_flight (tasks gate_s3)) = 1 \<and>
   length (filter in_flight (tasks gate_s3)) \<le> max_concurrent_requests default_config"
  using gate_bounds_outstanding_fetches [OF reachable_gate_s3] reachable_gate_s3
  by (simp add: gate_s3_def)


end
